theory Spec2Isabelle
  imports Main
begin

section \<open>size\_type arithmetic\<close>

text \<open>
  \<open>size_type\<close> is \<open>size_t\<close>: an unsigned 64-bit integer. Sizes are kept as
  natural numbers and every sum, difference and product the source computes on them is
  reduced modulo \<open>2 ^ 64\<close>, so that \<open>size - 1\<close> on an empty vector is
  \<open>SIZE_MAX\<close>, as it is in the program.
\<close>

definition SIZE_MAX :: nat where
  "SIZE_MAX = 2 ^ 64 - 1"

definition sz_add :: "nat \<Rightarrow> nat \<Rightarrow> nat" where
  "sz_add a b = (a + b) mod 2 ^ 64"

definition sz_sub :: "nat \<Rightarrow> nat \<Rightarrow> nat" where
  "sz_sub a b = nat ((int a - int b) mod 2 ^ 64)"

definition sz_mul :: "nat \<Rightarrow> nat \<Rightarrow> nat" where
  "sz_mul a b = (a * b) mod 2 ^ 64"

section \<open>Outcomes of a call\<close>

text \<open>
  A call returns, throws, or leaves defined behaviour. An exception carries the state
  at the point of the throw, since the caller can catch it and go on with the object.
  \<open>OutOfRange\<close> is \<open>std::out_of_range\<close>, \<open>AllocationError\<close> is the
  \<open>std::runtime_error\<close> that \<open>allocate_vector\<close> throws, \<open>BadAlloc\<close> is the
  \<open>std::bad_alloc\<close> of a bare \<open>new\<close>. \<open>MemoryFault\<close> is an access outside an
  allocated array (undefined behaviour), \<open>Terminated\<close> is an exception leaving a
  \<open>noexcept\<close> function.
\<close>

datatype exn = OutOfRange | AllocationError | BadAlloc

datatype crash = MemoryFault | Terminated

datatype ('r, 's) outcome = Return 'r 's | Throw exn 's | Abort crash

section \<open>The free store\<close>

text \<open>
  Every \<open>new T[n]\<close> makes a block of \<open>n\<close> cells. A block is owned by the
  \<open>shared_ptr<T[]>\<close> objects that point to it: \<open>owners\<close> is their number (the use
  count), and the block is released when it drops to 0. A \<open>shared_ptr<T[]>\<close> is the
  number of its block, or \<open>None\<close> when it is empty. A released block stays in the list,
  so that block numbers are never reused, but it is no longer \<open>live\<close>: reading or
  writing it is an access to freed memory.

  \<open>avail\<close> is the number of cells the allocator can still hand out: \<open>new T[n]\<close>
  throws \<open>std::bad_alloc\<close> when \<open>n\<close> exceeds it. Released cells are not given back to
  \<open>avail\<close>; within one call of the operations below every block that the call allocates
  is still owned when the next one is allocated. \<open>fresh\<close> is the value a
  default-initialised \<open>T\<close> holds.
\<close>

type_synonym addr = nat

record 'a block =
  cells :: "'a list"
  owners :: nat

record 'a heap =
  blocks :: "'a block list"
  avail :: nat
  fresh :: 'a

definition live :: "'a heap \<Rightarrow> addr \<Rightarrow> bool" where
  "live h a = (a < length (blocks h) \<and> 0 < owners (blocks h ! a))"

definition cells_at :: "'a heap \<Rightarrow> addr \<Rightarrow> 'a list" where
  "cells_at h a = cells (blocks h ! a)"

definition set_cells :: "'a heap \<Rightarrow> addr \<Rightarrow> 'a list \<Rightarrow> 'a heap" where
  "set_cells h a xs = h\<lparr>blocks := (blocks h)[a := (blocks h ! a)\<lparr>cells := xs\<rparr>]\<rparr>"

text \<open>
  \<open>acquire\<close> is a copy of a \<open>shared_ptr\<close>, \<open>release\<close> is its destruction or the
  moment it is made to point elsewhere.
\<close>

definition acquire :: "'a heap \<Rightarrow> addr option \<Rightarrow> 'a heap" where
  "acquire h d =
     (case d of
        None \<Rightarrow> h
      | Some a \<Rightarrow>
          h\<lparr>blocks := (blocks h)[a := (blocks h ! a)\<lparr>owners := owners (blocks h ! a) + 1\<rparr>]\<rparr>)"

definition release :: "'a heap \<Rightarrow> addr option \<Rightarrow> 'a heap" where
  "release h d =
     (case d of
        None \<Rightarrow> h
      | Some a \<Rightarrow>
          h\<lparr>blocks := (blocks h)[a := (blocks h ! a)\<lparr>owners := owners (blocks h ! a) - 1\<rparr>]\<rparr>)"

text \<open>
  \<open>new T[n]\<close>. In the source the new array goes to a \<open>shared_ptr\<close> at once
  (\<open>data_.reset(new T[size])\<close>, \<open>std::shared_ptr<T[]> tmp(new T[capacity_])\<close>), which
  is its first owner.
\<close>

definition new_array :: "'a heap \<Rightarrow> nat \<Rightarrow> (addr \<times> 'a heap) option" where
  "new_array h n =
     (if avail h < n then None
      else Some (length (blocks h),
                 h\<lparr>blocks := blocks h @ [\<lparr>cells = replicate n (fresh h), owners = 1\<rparr>],
                   avail := avail h - n\<rparr>))"

text \<open>
  A reference \<open>T&\<close> is a cell of a block. \<open>slot h d i\<close> is the cell that \<open>d[i]\<close>
  names, when the pointer is not empty, its block is live and has such a cell.
\<close>

type_synonym reference = "addr \<times> nat"

definition slot :: "'a heap \<Rightarrow> addr option \<Rightarrow> nat \<Rightarrow> reference option" where
  "slot h d i =
     (case d of
        None \<Rightarrow> None
      | Some a \<Rightarrow> if live h a \<and> i < length (cells_at h a) then Some (a, i) else None)"

definition ref_get :: "'a heap \<Rightarrow> reference \<Rightarrow> 'a" where
  "ref_get h r = cells_at h (fst r) ! snd r"

definition ref_set :: "'a heap \<Rightarrow> reference \<Rightarrow> 'a \<Rightarrow> 'a heap" where
  "ref_set h r x = set_cells h (fst r) ((cells_at h (fst r))[snd r := x])"

definition buf_read :: "'a heap \<Rightarrow> addr option \<Rightarrow> nat \<Rightarrow> 'a option" where
  "buf_read h d i = (case slot h d i of None \<Rightarrow> None | Some r \<Rightarrow> Some (ref_get h r))"

definition buf_write :: "'a heap \<Rightarrow> addr option \<Rightarrow> nat \<Rightarrow> 'a \<Rightarrow> 'a heap option" where
  "buf_write h d i x = (case slot h d i of None \<Rightarrow> None | Some r \<Rightarrow> Some (ref_set h r x))"

text \<open>
  \<open>read_block h d n\<close> reads the cells \<open>[0, n)\<close> of a block and \<open>write_block h d xs\<close>
  writes \<open>xs\<close> over the cells \<open>[0, length xs)\<close>: what \<open>std::copy\<close> and
  \<open>std::uninitialized_fill_n\<close> do with a range. An empty range touches no memory, so
  it is fine on an empty pointer. \<open>None\<close> is an access outside a live block.
  \<open>std_copy h src n dst\<close> is \<open>std::copy\<close> of the first \<open>n\<close> cells of \<open>src\<close>
  to the start of \<open>dst\<close>.
\<close>

definition read_block :: "'a heap \<Rightarrow> addr option \<Rightarrow> nat \<Rightarrow> 'a list option" where
  "read_block h d n =
     (if n = 0 then Some []
      else case d of
        None \<Rightarrow> None
      | Some a \<Rightarrow>
          if live h a \<and> n \<le> length (cells_at h a)
          then Some (take n (cells_at h a)) else None)"

definition write_block :: "'a heap \<Rightarrow> addr option \<Rightarrow> 'a list \<Rightarrow> 'a heap option" where
  "write_block h d xs =
     (if xs = [] then Some h
      else case d of
        None \<Rightarrow> None
      | Some a \<Rightarrow>
          if live h a \<and> length xs \<le> length (cells_at h a)
          then Some (set_cells h a (xs @ drop (length xs) (cells_at h a)))
          else None)"

definition std_copy :: "'a heap \<Rightarrow> addr option \<Rightarrow> nat \<Rightarrow> addr option \<Rightarrow> 'a heap option" where
  "std_copy h src n dst =
     (case read_block h src n of None \<Rightarrow> None | Some xs \<Rightarrow> write_block h dst xs)"

text \<open>
  A parameter of type \<open>const T&\<close> or \<open>Args&&\<close> is a reference, and the callee reads
  the object when it uses the parameter, not when it is called. \<open>Value x\<close> is a
  reference to an object outside the blocks of the store (a literal, a temporary, a
  local), which holds \<open>x\<close> throughout the call; \<open>Slot r\<close> is a reference to a cell of a
  block, such as the result of \<open>v.at(2)\<close>, which holds what the store has there at the
  moment of the read, and dangles once its block is released.
\<close>

datatype 'a arg = Value 'a | Slot reference

definition arg_read :: "'a heap \<Rightarrow> 'a arg \<Rightarrow> 'a option" where
  "arg_read h x =
     (case x of
        Value y \<Rightarrow> Some y
      | Slot r \<Rightarrow> buf_read h (Some (fst r)) (snd r))"

section \<open>The vector and its iterator\<close>

text \<open>
  The members \<open>data_\<close>, \<open>size_\<close> and \<open>capacity_\<close> of the class are the fields
  \<open>m_data\<close>, \<open>m_size\<close> and \<open>m_capacity\<close>.
\<close>

record vector =
  m_data :: "addr option"
  m_size :: nat
  m_capacity :: nat

text \<open>
  Modelled from the spec: the iterator class of \<open>vector_iterator.h\<close>, which is not
  among the sources. The spec gives it a shared reference to the buffer (it is one of
  the owners of the block) and an index into that buffer; \<open>begin\<close> builds it from the buffer and the size, at index 0.
  Adding an offset that leads beyond the size raises \<open>OutOfRange\<close> (the tests expect
  "Step goes beyond vector size" from \<open>begin() + 10\<close> on five elements and accept
  \<open>begin() + size()\<close>). Dereferencing reads the slot at the index. The subscript
  \<open>it[i]\<close> is slot \<open>i\<close> of the buffer: the spec has \<open>insert_many\<close> shift the slots
  from the last occupied one down to the insertion offset and write the new values
  from the insertion offset on, and the source does both through \<open>it[i]\<close> with
  \<open>it = begin() + posIndex\<close>. \<open>std::distance(begin(), pos)\<close> is the difference
  of the two indices.
\<close>

record iterator =
  it_data :: "addr option"
  it_size :: nat
  it_index :: nat

definition iterator_ctor :: "addr option \<Rightarrow> nat \<Rightarrow> iterator" where
  "iterator_ctor d n = \<lparr>it_data = d, it_size = n, it_index = 0\<rparr>"

definition iter_plus :: "iterator \<Rightarrow> nat \<Rightarrow> exn + iterator" where
  "iter_plus it n =
     (if it_size it < it_index it + n then Inl OutOfRange
      else Inr (it\<lparr>it_index := it_index it + n\<rparr>))"

definition iter_deref :: "'a heap \<Rightarrow> iterator \<Rightarrow> reference option" where
  "iter_deref h it = slot h (it_data it) (it_index it)"

definition iter_get :: "'a heap \<Rightarrow> iterator \<Rightarrow> nat \<Rightarrow> 'a option" where
  "iter_get h it i = buf_read h (it_data it) i"

definition iter_set :: "'a heap \<Rightarrow> iterator \<Rightarrow> nat \<Rightarrow> 'a \<Rightarrow> 'a heap option" where
  "iter_set h it i x = buf_write h (it_data it) i x"

definition distance :: "iterator \<Rightarrow> iterator \<Rightarrow> nat" where
  "distance it1 it2 = sz_sub (it_index it2) (it_index it1)"

section \<open>Queries and iterators of the vector\<close>

definition empty_vec :: "vector \<Rightarrow> bool" where
  "empty_vec v = (m_size v = 0)"

definition size_vec :: "vector \<Rightarrow> nat" where
  "size_vec v = m_size v"

definition capacity :: "vector \<Rightarrow> nat" where
  "capacity v = m_capacity v"

definition begin_it :: "vector \<Rightarrow> iterator" where
  "begin_it v = iterator_ctor (m_data v) (m_size v)"

definition end_it :: "vector \<Rightarrow> exn + iterator" where
  "end_it v = iter_plus (begin_it v) (m_size v)"

text \<open>The buffer of a vector as the store has it, and the elements the vector holds.\<close>

definition block_at :: "'a heap \<Rightarrow> addr option \<Rightarrow> 'a list" where
  "block_at h d =
     (case d of
        None \<Rightarrow> []
      | Some a \<Rightarrow> if live h a then cells_at h a else [])"

definition buffer :: "'a heap \<Rightarrow> vector \<Rightarrow> 'a list" where
  "buffer h v = block_at h (m_data v)"

definition elements :: "'a heap \<Rightarrow> vector \<Rightarrow> 'a list" where
  "elements h v = take (m_size v) (buffer h v)"

section \<open>Construction\<close>

text \<open>
  \<open>data_.reset(new T[size])\<close>: the allocation comes first and may throw; then the
  vector lets go of the block it had and owns the new one.
\<close>

definition allocate_vector ::
  "'a heap \<Rightarrow> vector \<Rightarrow> nat \<Rightarrow> (unit, 'a heap \<times> vector) outcome" where
  "allocate_vector h v n =
     (case new_array h n of
        None \<Rightarrow> Throw AllocationError (h, v)
      | Some (a, h') \<Rightarrow> Return () (release h' (m_data v), v\<lparr>m_data := Some a\<rparr>))"

definition Vector_default :: vector where
  "Vector_default = \<lparr>m_data = None, m_size = 0, m_capacity = 0\<rparr>"

text \<open>
  A constructor is a call on the object under construction; when it throws, the object
  in the state is the one that was being built and is gone.
\<close>

definition Vector_fill ::
  "'a heap \<Rightarrow> nat \<Rightarrow> 'a \<Rightarrow> (unit, 'a heap \<times> vector) outcome" where
  "Vector_fill h n x =
     (case allocate_vector h \<lparr>m_data = None, m_size = n, m_capacity = n\<rparr> n of
        Return u (h1, v1) \<Rightarrow>
          (case write_block h1 (m_data v1) (replicate n x) of
             None \<Rightarrow> Abort MemoryFault
           | Some h2 \<Rightarrow> Return () (h2, v1))
      | Throw e s \<Rightarrow> Throw e s
      | Abort c \<Rightarrow> Abort c)"

definition Vector_items ::
  "'a heap \<Rightarrow> 'a list \<Rightarrow> (unit, 'a heap \<times> vector) outcome" where
  "Vector_items h items =
     (case allocate_vector h
             \<lparr>m_data = None, m_size = length items, m_capacity = length items\<rparr> (length items) of
        Return u (h1, v1) \<Rightarrow>
          (case write_block h1 (m_data v1) items of
             None \<Rightarrow> Abort MemoryFault
           | Some h2 \<Rightarrow> Return () (h2, v1))
      | Throw e s \<Rightarrow> Throw e s
      | Abort c \<Rightarrow> Abort c)"

definition Vector_copy ::
  "'a heap \<Rightarrow> vector \<Rightarrow> (unit, 'a heap \<times> vector) outcome" where
  "Vector_copy h v =
     (case allocate_vector h
             \<lparr>m_data = None, m_size = size_vec v, m_capacity = size_vec v\<rparr> (size_vec v) of
        Return u (h1, v1) \<Rightarrow>
          (case std_copy h1 (m_data v) (m_size v) (m_data v1) of
             None \<Rightarrow> Abort MemoryFault
           | Some h2 \<Rightarrow> Return () (h2, v1))
      | Throw e s \<Rightarrow> Throw e s
      | Abort c \<Rightarrow> Abort c)"

text \<open>
  The move constructor takes the buffer, and both its size and its capacity from the
  size of the source; it returns the new vector and the source as it is left.
\<close>

definition Vector_move :: "vector \<Rightarrow> vector \<times> vector" where
  "Vector_move v =
     (\<lparr>m_data = m_data v, m_size = size_vec v, m_capacity = size_vec v\<rparr>,
      v\<lparr>m_data := None, m_size := 0, m_capacity := 0\<rparr>)"

text \<open>
  Move assignment \<open>this = std::move(v)\<close>. The parameter \<open>v\<close> is a reference, and it
  may name the target itself (\<open>a = std::move(a)\<close>): \<open>Self\<close>, or another vector
  object: \<open>Other w\<close>. \<open>named v this\<close> is the object that \<open>v\<close> names when the
  target is \<open>this\<close>. The body names no member of \<open>v\<close> on the left of an assignment;
  the object that \<open>v\<close> names is returned, as the call leaves it, beside the state. The
  function is \<open>noexcept\<close>, so a failed allocation ends the program.
\<close>

datatype source = Self | Other vector

definition named :: "source \<Rightarrow> vector \<Rightarrow> vector" where
  "named v this = (case v of Self \<Rightarrow> this | Other w \<Rightarrow> w)"

definition move_assign ::
  "'a heap \<Rightarrow> vector \<Rightarrow> source \<Rightarrow> (vector, 'a heap \<times> vector) outcome" where
  "move_assign h this v =
     (let this1 = this\<lparr>m_size := size_vec (named v this)\<rparr>;
          this2 = this1\<lparr>m_capacity := capacity (named v this1)\<rparr>
      in case allocate_vector h this2 (m_size this2) of
        Return u (h1, this3) \<Rightarrow>
          (case std_copy h1 (m_data (named v this3)) (m_size (named v this3)) (m_data this3) of
             None \<Rightarrow> Abort MemoryFault
           | Some h2 \<Rightarrow> Return (named v this3) (h2, this3))
      | Throw e s \<Rightarrow> Abort Terminated
      | Abort c \<Rightarrow> Abort c)"

section \<open>Capacity\<close>

text \<open>
  \<open>reserve\<close> copies the vector into the local \<open>tmp\<close>, sets \<open>capacity_\<close>,
  allocates the new buffer and copies \<open>tmp\<close> back. \<open>tmp\<close> is destroyed when the block
  of the \<open>if\<close> is left, by its end or by the exception of \<open>allocate_vector\<close>, and
  its buffer is released with it.
\<close>

definition reserve ::
  "'a heap \<Rightarrow> vector \<Rightarrow> nat \<Rightarrow> (unit, 'a heap \<times> vector) outcome" where
  "reserve h this n =
     (let new_cap = (if n = 0 then 2 else n) in
      if capacity this < new_cap then
        (case Vector_copy h this of
           Return u (h1, tmp) \<Rightarrow>
             (let this1 = this\<lparr>m_capacity := new_cap\<rparr> in
              case allocate_vector h1 this1 (m_capacity this1) of
                Return u' (h2, this2) \<Rightarrow>
                  (case std_copy h2 (m_data tmp) (m_size tmp) (m_data this2) of
                     None \<Rightarrow> Abort MemoryFault
                   | Some h3 \<Rightarrow> Return () (release h3 (m_data tmp), this2))
              | Throw e s \<Rightarrow> Throw e (release (fst s) (m_data tmp), snd s)
              | Abort c \<Rightarrow> Abort c)
         | Throw e s \<Rightarrow> Throw e (fst s, this)
         | Abort c \<Rightarrow> Abort c)
      else Return () (h, this))"

text \<open>
  \<open>shrink_to_fit\<close> builds the new buffer in the local \<open>tmp\<close> and moves it into
  \<open>data_\<close>, which lets go of the old buffer.
\<close>

definition shrink_to_fit ::
  "'a heap \<Rightarrow> vector \<Rightarrow> (unit, 'a heap \<times> vector) outcome" where
  "shrink_to_fit h this =
     (if m_size this < m_capacity this then
        (let this1 = this\<lparr>m_capacity := m_size this\<rparr> in
         case new_array h (m_capacity this1) of
           None \<Rightarrow> Throw BadAlloc (h, this1)
         | Some (tmp, h1) \<Rightarrow>
             (case std_copy h1 (m_data this1) (m_size this1) (Some tmp) of
                None \<Rightarrow> Abort MemoryFault
              | Some h2 \<Rightarrow>
                  Return () (release h2 (m_data this1), this1\<lparr>m_data := Some tmp\<rparr>)))
      else Return () (h, this))"

section \<open>Element access\<close>

definition at ::
  "'a heap \<Rightarrow> vector \<Rightarrow> nat \<Rightarrow> (reference, 'a heap \<times> vector) outcome" where
  "at h this pos =
     (if m_size this \<le> pos then Throw OutOfRange (h, this)
      else case iter_plus (begin_it this) pos of
        Inl e \<Rightarrow> Throw e (h, this)
      | Inr it \<Rightarrow>
          (case iter_deref h it of
             None \<Rightarrow> Abort MemoryFault
           | Some r \<Rightarrow> Return r (h, this)))"

definition subscript ::
  "'a heap \<Rightarrow> vector \<Rightarrow> nat \<Rightarrow> (reference, 'a heap \<times> vector) outcome" where
  "subscript h this pos = at h this pos"

definition set_element ::
  "'a heap \<Rightarrow> vector \<Rightarrow> nat \<Rightarrow> 'a \<Rightarrow> (unit, 'a heap \<times> vector) outcome" where
  "set_element h this pos x =
     (case at h this pos of
        Return r (h1, this1) \<Rightarrow> Return () (ref_set h1 r x, this1)
      | Throw e s \<Rightarrow> Throw e s
      | Abort c \<Rightarrow> Abort c)"

definition front ::
  "'a heap \<Rightarrow> vector \<Rightarrow> (reference, 'a heap \<times> vector) outcome" where
  "front h this = at h this 0"

definition back_vec ::
  "'a heap \<Rightarrow> vector \<Rightarrow> (reference, 'a heap \<times> vector) outcome" where
  "back_vec h this = at h this (sz_sub (m_size this) 1)"

section \<open>Modifiers\<close>

text \<open>
  An iterator that a member function makes for itself (\<open>begin()\<close>, \<open>it\<close>) owns
  its block from its construction to the end of the call at the latest, and in that time
  the vector owns the same block; such a share changes nothing and is left out. The
  iterator parameter \<open>pos\<close> is built and destroyed by the caller, and so is its share.
\<close>

definition clear :: "vector \<Rightarrow> vector" where
  "clear this = this\<lparr>m_size := 0\<rparr>"

definition pop_back :: "vector \<Rightarrow> vector" where
  "pop_back this =
     (if 0 < m_size this then this\<lparr>m_size := sz_sub (m_size this) 1\<rparr> else this)"

definition swap_vec :: "vector \<Rightarrow> vector \<Rightarrow> vector \<times> vector" where
  "swap_vec this other =
     (this\<lparr>m_data := m_data other, m_size := m_size other, m_capacity := m_capacity other\<rparr>,
      other\<lparr>m_data := m_data this, m_size := m_size this, m_capacity := m_capacity this\<rparr>)"

text \<open>
  The loop of \<open>erase\<close>: \<open>for (i = posIndex; i < size() - 1; ++i) it[i] = it[i + 1]\<close>.
  The bound is a \<open>size_t\<close>, so \<open>i + 1\<close> does not wrap while the loop runs.
\<close>

function erase_loop :: "'a heap \<Rightarrow> iterator \<Rightarrow> nat \<Rightarrow> nat \<Rightarrow> 'a heap option" where
  "erase_loop h it i bound =
     (if i < bound then
        (case iter_get h it (i + 1) of
           None \<Rightarrow> None
         | Some x \<Rightarrow>
             (case iter_set h it i x of
                None \<Rightarrow> None
              | Some h' \<Rightarrow> erase_loop h' it (i + 1) bound))
      else Some h)"
  by pat_completeness auto
termination
  by (relation "measure (\<lambda>(h, it, i, bound). bound - i)") auto

definition erase ::
  "'a heap \<Rightarrow> vector \<Rightarrow> iterator \<Rightarrow> (unit, 'a heap \<times> vector) outcome" where
  "erase h this pos =
     (let posIndex = distance (begin_it this) pos;
          it = begin_it this
      in case erase_loop h it posIndex (sz_sub (size_vec this) 1) of
           None \<Rightarrow> Abort MemoryFault
         | Some h1 \<Rightarrow> Return () (h1, this\<lparr>m_size := sz_sub (m_size this) 1\<rparr>))"

text \<open>
  The shifting loop of \<open>insert_many\<close>:
  \<open>for (i = size() + numArgs - 1; i >= posIndex + numArgs; --i) it[i] = it[i - numArgs]\<close>.
  At \<open>i = 0\<close> the decrement wraps to \<open>SIZE_MAX\<close>, the condition holds again for
  every bound, and the next access \<open>it[SIZE_MAX]\<close> is outside every array.
\<close>

function shift_loop ::
  "'a heap \<Rightarrow> iterator \<Rightarrow> nat \<Rightarrow> nat \<Rightarrow> nat \<Rightarrow> 'a heap option" where
  "shift_loop h it numArgs lo i =
     (if lo \<le> i then
        (case iter_get h it (sz_sub i numArgs) of
           None \<Rightarrow> None
         | Some x \<Rightarrow>
             (case iter_set h it i x of
                None \<Rightarrow> None
              | Some h' \<Rightarrow> if i = 0 then None else shift_loop h' it numArgs lo (i - 1)))
      else Some h)"
  by pat_completeness auto
termination
  by (relation "measure (\<lambda>(h, it, numArgs, lo, i). i)") auto

text \<open>The fold \<open>((it[posIndex++] = std::forward<Args>(args)), ...)\<close>, in argument order.\<close>

fun write_args :: "'a heap \<Rightarrow> iterator \<Rightarrow> nat \<Rightarrow> 'a arg list \<Rightarrow> 'a heap option" where
  "write_args h it i [] = Some h"
| "write_args h it i (x # xs) =
     (case arg_read h x of
        None \<Rightarrow> None
      | Some y \<Rightarrow>
          (case iter_set h it i y of
             None \<Rightarrow> None
           | Some h' \<Rightarrow> write_args h' it (sz_add i 1) xs))"

text \<open>
  \<open>insert_many\<close>. After \<open>reserve\<close> the assignment \<open>pos = begin() + posIndex\<close> makes
  \<open>pos\<close> an owner of the new buffer and lets go of the block it pointed to. The
  arguments are read after the shift.
\<close>

definition insert_many ::
  "'a heap \<Rightarrow> vector \<Rightarrow> iterator \<Rightarrow> 'a arg list \<Rightarrow> (iterator, 'a heap \<times> vector) outcome" where
  "insert_many h this pos args =
     (let posIndex = distance (begin_it this) pos;
          numArgs = length args
      in case (if capacity this < sz_add (size_vec this) numArgs then
                 (case reserve h this (sz_add (size_vec this) numArgs) of
                    Return u (h1, this1) \<Rightarrow>
                      (case iter_plus (begin_it this1) posIndex of
                         Inl e \<Rightarrow> Throw e (h1, this1)
                       | Inr pos1 \<Rightarrow>
                           Return pos1
                             (release (acquire h1 (it_data pos1)) (it_data pos), this1))
                  | Throw e s \<Rightarrow> Throw e s
                  | Abort c \<Rightarrow> Abort c)
               else Return pos (h, this)) of
           Return pos1 (h1, this1) \<Rightarrow>
             (case iter_plus (begin_it this1) posIndex of
                Inl e \<Rightarrow> Throw e (h1, this1)
              | Inr it \<Rightarrow>
                  (case shift_loop h1 it numArgs (sz_add posIndex numArgs)
                          (sz_sub (sz_add (size_vec this1) numArgs) 1) of
                     None \<Rightarrow> Abort MemoryFault
                   | Some h2 \<Rightarrow>
                       (case write_args h2 it posIndex args of
                          None \<Rightarrow> Abort MemoryFault
                        | Some h3 \<Rightarrow>
                            Return pos1
                              (h3, this1\<lparr>m_size := sz_add (m_size this1) numArgs\<rparr>))))
         | Throw e s \<Rightarrow> Throw e s
         | Abort c \<Rightarrow> Abort c)"

definition insert ::
  "'a heap \<Rightarrow> vector \<Rightarrow> iterator \<Rightarrow> 'a arg \<Rightarrow> (iterator, 'a heap \<times> vector) outcome" where
  "insert h this pos x = insert_many h this pos [x]"

text \<open>The fold \<open>((data_[size_++] = std::forward<Args>(args)), ...)\<close>, in argument order.\<close>

fun append_args ::
  "'a heap \<Rightarrow> vector \<Rightarrow> 'a arg list \<Rightarrow> (unit, 'a heap \<times> vector) outcome" where
  "append_args h this [] = Return () (h, this)"
| "append_args h this (x # xs) =
     (case arg_read h x of
        None \<Rightarrow> Abort MemoryFault
      | Some y \<Rightarrow>
          (case buf_write h (m_data this) (m_size this) y of
             None \<Rightarrow> Abort MemoryFault
           | Some h' \<Rightarrow> append_args h' (this\<lparr>m_size := sz_add (m_size this) 1\<rparr>) xs))"

definition insert_many_back ::
  "'a heap \<Rightarrow> vector \<Rightarrow> 'a arg list \<Rightarrow> (unit, 'a heap \<times> vector) outcome" where
  "insert_many_back h this args =
     (case (if size_vec this = capacity this
            then reserve h this (sz_mul (capacity this) 2)
            else Return () (h, this)) of
        Return u (h1, this1) \<Rightarrow> append_args h1 this1 args
      | Throw e s \<Rightarrow> Throw e s
      | Abort c \<Rightarrow> Abort c)"

definition push_back ::
  "'a heap \<Rightarrow> vector \<Rightarrow> 'a arg \<Rightarrow> (unit, 'a heap \<times> vector) outcome" where
  "push_back h this x = insert_many_back h this [x]"

section \<open>What the two shifting loops leave in a block\<close>

text \<open>
  \<open>shifted_left xs i bound\<close> is the block \<open>xs\<close> after the loop of \<open>erase\<close> has
  run from \<open>i\<close> up to \<open>bound\<close>; \<open>shifted_right xs n lo i\<close> is the block after the
  loop of \<open>insert_many\<close> has run from \<open>i\<close> down to \<open>lo\<close>. Both are used to state
  what the loops compute.
\<close>

definition shifted_left :: "'a list \<Rightarrow> nat \<Rightarrow> nat \<Rightarrow> 'a list" where
  "shifted_left xs i bound =
     map (\<lambda>j. if i \<le> j \<and> j < bound then xs ! Suc j else xs ! j) [0..<length xs]"

definition shifted_right :: "'a list \<Rightarrow> nat \<Rightarrow> nat \<Rightarrow> nat \<Rightarrow> 'a list" where
  "shifted_right xs n lo i =
     map (\<lambda>j. if lo \<le> j \<and> j \<le> i then xs ! (j - n) else xs ! j) [0..<length xs]"

text \<open>
  \<open>inserted xs s p args\<close> is the block \<open>xs\<close> of a vector of size \<open>s\<close> after
  \<open>insert_many\<close> has shifted the slots from \<open>p\<close> on and written \<open>args\<close> at
  \<open>p\<close>.
\<close>

definition inserted :: "'a list \<Rightarrow> nat \<Rightarrow> nat \<Rightarrow> 'a list \<Rightarrow> 'a list" where
  "inserted xs s p args =
     take p (shifted_right xs (length args) (p + length args) (s + length args - 1)) @ args @
     drop (p + length args) (shifted_right xs (length args) (p + length args) (s + length args - 1))"

text \<open>
  \<open>arg_value h x\<close> is the value the argument \<open>x\<close> has when the call is made in the
  store \<open>h\<close>. \<open>outside h v x\<close> says that \<open>x\<close> is not a reference into the buffer of
  \<open>v\<close>: it is an object outside the store, or a cell of another live block.
\<close>

definition arg_value :: "'a heap \<Rightarrow> 'a arg \<Rightarrow> 'a" where
  "arg_value h x = (case x of Value y \<Rightarrow> y | Slot r \<Rightarrow> ref_get h r)"

definition outside :: "'a heap \<Rightarrow> vector \<Rightarrow> 'a arg \<Rightarrow> bool" where
  "outside h v x =
     (case x of
        Value y \<Rightarrow> True
      | Slot r \<Rightarrow> Some (fst r) \<noteq> m_data v \<and> slot h (Some (fst r)) (snd r) = Some r)"

section \<open>Pointers and stores\<close>

text \<open>
  \<open>allocated h d\<close>: the pointer \<open>d\<close> is empty or points to a block that the store
  \<open>h\<close> has handed out, live or released. Every pointer that a program holds is one:
  it was returned by a \<open>new\<close> on an earlier state of the same store, and blocks are
  never taken out of the list.
\<close>

definition allocated :: "'a heap \<Rightarrow> addr option \<Rightarrow> bool" where
  "allocated h d = (case d of None \<Rightarrow> True | Some a \<Rightarrow> a < length (blocks h))"

text \<open>
  A store \<open>h'\<close> extends \<open>h\<close> off the block \<open>d\<close> when it has the blocks of \<open>h\<close> and
  maybe more, and every block of \<open>h\<close> other than \<open>d\<close> is as live as before and holds
  the same cells.
\<close>

definition extends :: "'a heap \<Rightarrow> addr option \<Rightarrow> 'a heap \<Rightarrow> bool" where
  "extends h d h' =
     (length (blocks h) \<le> length (blocks h') \<and> fresh h' = fresh h \<and>
      (\<forall>b < length (blocks h). Some b \<noteq> d \<longrightarrow>
         live h' b = live h b \<and> cells_at h' b = cells_at h b))"

section \<open>Example objects\<close>

definition heap0 :: "int heap" where
  "heap0 = \<lparr>blocks = [], avail = 100, fresh = 0\<rparr>"

definition heap1234 :: "int heap" where
  "heap1234 = \<lparr>blocks = [\<lparr>cells = [1, 2, 3, 4], owners = 1\<rparr>], avail = 100, fresh = 0\<rparr>"

definition vec1234 :: vector where
  "vec1234 = \<lparr>m_data = Some 0, m_size = 4, m_capacity = 4\<rparr>"

definition vec123 :: vector where
  "vec123 = \<lparr>m_data = Some 0, m_size = 3, m_capacity = 4\<rparr>"

definition it_at :: "vector \<Rightarrow> nat \<Rightarrow> iterator" where
  "it_at v p = \<lparr>it_data = m_data v, it_size = m_size v, it_index = p\<rparr>"

section \<open>Arithmetic on sizes, and the store\<close>

lemma sz_add_small: "a + b \<le> SIZE_MAX \<Longrightarrow> sz_add a b = a + b"
  by (simp add: sz_add_def SIZE_MAX_def)

lemma SIZE_MAX_less: "a \<le> SIZE_MAX \<longleftrightarrow> a < 2 ^ 64"
proof -
  have "(0::nat) < 2 ^ 64" by simp
  then show ?thesis unfolding SIZE_MAX_def by linarith
qed

lemma sz_sub_small: "b \<le> a \<Longrightarrow> a \<le> SIZE_MAX \<Longrightarrow> sz_sub a b = a - b"
proof -
  assume h: "b \<le> a" "a \<le> SIZE_MAX"
  have lt: "a - b < 2 ^ 64" using h(2) unfolding SIZE_MAX_less by linarith
  have d: "int a - int b = int (a - b)" using h(1) by (simp only: of_nat_diff)
  have "int (a - b) < int (2 ^ 64)" using lt by (simp only: of_nat_less_iff)
  then have "int (a - b) < 2 ^ 64" by (simp only: of_nat_power of_nat_numeral)
  then have "int (a - b) mod 2 ^ 64 = int (a - b)"
    by (intro mod_pos_pos_trivial) simp_all
  then show ?thesis unfolding sz_sub_def d by (simp only: nat_int)
qed

lemma nth_update_at:
  "(xs[a := y]) ! b = (if b = a \<and> a < length xs then y else xs ! b)"
  by (cases "a < length xs") (auto simp: list_update_beyond)

lemma live_set_cells: "live (set_cells h a xs) b = live h b"
  by (auto simp: live_def set_cells_def nth_update_at)

lemma cells_at_set_cells:
  "cells_at (set_cells h a xs) b = (if b = a \<and> a < length (blocks h) then xs else cells_at h b)"
  by (auto simp: cells_at_def set_cells_def nth_update_at)

lemma set_cells_twice: "set_cells (set_cells h a xs) a ys = set_cells h a ys"
  by (cases "a < length (blocks h)") (simp_all add: set_cells_def list_update_beyond)

lemma set_cells_same: "set_cells h a (cells_at h a) = h"
  by (simp add: set_cells_def cells_at_def)

lemma set_cells_fields:
  "length (blocks (set_cells h a xs)) = length (blocks h)"
  "avail (set_cells h a xs) = avail h"
  "fresh (set_cells h a xs) = fresh h"
  by (simp_all add: set_cells_def)

lemma cells_at_release: "cells_at (release h d) b = cells_at h b"
  by (cases d) (auto simp: cells_at_def release_def nth_update_at)

lemma cells_at_acquire: "cells_at (acquire h d) b = cells_at h b"
  by (cases d) (auto simp: cells_at_def acquire_def nth_update_at)

lemma live_release_other: "d \<noteq> Some b \<Longrightarrow> live (release h d) b = live h b"
  by (cases d) (auto simp: live_def release_def nth_update_at)

lemma live_acquire: "live h b \<Longrightarrow> live (acquire h d) b"
  by (cases d) (auto simp: live_def acquire_def nth_update_at)

lemma live_acquire_other: "d \<noteq> Some b \<Longrightarrow> live (acquire h d) b = live h b"
  by (cases d) (auto simp: live_def acquire_def nth_update_at)

lemma release_fields:
  "length (blocks (release h d)) = length (blocks h)"
  "avail (release h d) = avail h"
  "fresh (release h d) = fresh h"
  by (cases d; simp add: release_def)+

lemma acquire_fields:
  "length (blocks (acquire h d)) = length (blocks h)"
  "avail (acquire h d) = avail h"
  "fresh (acquire h d) = fresh h"
  by (cases d; simp add: acquire_def)+

lemmas store_simps =
  live_set_cells cells_at_set_cells set_cells_twice set_cells_same set_cells_fields
  cells_at_release cells_at_acquire release_fields acquire_fields

lemma block_at_slot:
  "i < length (block_at h d) \<Longrightarrow> \<exists>a. d = Some a \<and> live h a \<and> cells_at h a = block_at h d"
  by (cases d) (auto simp: block_at_def split: if_splits)

lemma buffer_slot:
  assumes "0 < n" and "n \<le> length (buffer h v)"
  shows "\<exists>a. m_data v = Some a \<and> live h a \<and> cells_at h a = buffer h v"
proof -
  have "0 < length (block_at h (m_data v))"
    using assms unfolding buffer_def by linarith
  from block_at_slot [OF this] show ?thesis
    by (simp add: buffer_def)
qed

lemma slot_ok:
  "live h a \<Longrightarrow> i < length (cells_at h a) \<Longrightarrow> slot h (Some a) i = Some (a, i)"
  by (simp add: slot_def)

lemma buf_read_ok:
  "live h a \<Longrightarrow> i < length (cells_at h a) \<Longrightarrow> buf_read h (Some a) i = Some (cells_at h a ! i)"
  by (simp add: buf_read_def slot_def ref_get_def)

lemma buf_write_ok:
  "live h a \<Longrightarrow> i < length (cells_at h a) \<Longrightarrow>
   buf_write h (Some a) i x = Some (set_cells h a ((cells_at h a)[i := x]))"
  by (simp add: buf_write_def slot_def ref_set_def)

lemma read_block_ok:
  "n \<le> length (block_at h d) \<Longrightarrow> read_block h d n = Some (take n (block_at h d))"
  by (cases d) (auto simp: read_block_def block_at_def split: if_splits)

lemma write_block_ok:
  "live h a \<Longrightarrow> length xs \<le> length (cells_at h a) \<Longrightarrow>
   write_block h (Some a) xs = Some (set_cells h a (xs @ drop (length xs) (cells_at h a)))"
  by (simp add: write_block_def set_cells_same)

lemma extends_refl: "extends h d h"
  by (simp add: extends_def)

lemma extends_trans:
  "extends h d h1 \<Longrightarrow> extends h1 d h2 \<Longrightarrow> extends h d h2"
  by (auto simp: extends_def)

lemma extends_set_cells: "extends h (Some a) (set_cells h a xs)"
  by (auto simp: extends_def store_simps)

lemma extends_set_cells_new:
  "length (blocks h) \<le> a \<Longrightarrow> extends h d (set_cells h' a xs) = extends h d h'"
  by (auto simp: extends_def store_simps)

lemma extends_release: "extends h d (release h d)"
  by (auto simp: extends_def store_simps live_release_other)

lemma extends_release_new:
  "length (blocks h) \<le> a \<Longrightarrow> extends h d (release h' (Some a)) = extends h d h'"
  by (auto simp: extends_def store_simps live_release_other)

lemma extends_acquire_new:
  "length (blocks h) \<le> a \<Longrightarrow> extends h d (acquire h' (Some a)) = extends h d h'"
  by (auto simp: extends_def store_simps live_acquire_other)

lemma extends_release_same:
  "extends h d h' \<Longrightarrow> extends h d (release h' d)"
  by (auto simp: extends_def store_simps live_release_other)

section \<open>Copy construction and reserve, when allocation succeeds\<close>

lemma new_array_ok:
  "n \<le> avail h \<Longrightarrow>
   new_array h n =
     Some (length (blocks h),
           h\<lparr>blocks := blocks h @ [\<lparr>cells = replicate n (fresh h), owners = 1\<rparr>],
             avail := avail h - n\<rparr>)"
  by (simp add: new_array_def)

lemma block_at_append:
  assumes "blocks h1 = blocks h @ bs" and "0 < length (block_at h d)"
  shows "block_at h1 d = block_at h d"
proof -
  from block_at_slot [OF assms(2)] obtain a where
    a: "d = Some a" "live h a" "cells_at h a = block_at h d" by blast
  then show ?thesis
    using assms(1) by (simp add: block_at_def live_def cells_at_def nth_append)
qed

lemma read_block_ext:
  assumes "n \<le> length (block_at h d)" and "blocks h1 = blocks h @ bs"
  shows "read_block h1 d n = Some (take n (block_at h d))"
proof (cases "n = 0")
  case True
  then show ?thesis by (simp add: read_block_def)
next
  case False
  with assms(1) have p: "0 < length (block_at h d)" by linarith
  have "n \<le> length (block_at h1 d)"
    using assms(1) block_at_append [OF assms(2) p] by simp
  then show ?thesis
    using block_at_append [OF assms(2) p] by (simp add: read_block_ok)
qed

lemma Vector_copy_ok:
  assumes "m_size v \<le> length (buffer h v)" and "m_size v \<le> avail h"
  shows "Vector_copy h v =
           Return ()
             (h\<lparr>blocks := blocks h @ [\<lparr>cells = elements h v, owners = 1\<rparr>],
                avail := avail h - m_size v\<rparr>,
              \<lparr>m_data = Some (length (blocks h)), m_size = m_size v, m_capacity = m_size v\<rparr>)"
proof -
  let ?s = "m_size v"
  let ?h1 = "h\<lparr>blocks := blocks h @ [\<lparr>cells = replicate ?s (fresh h), owners = 1\<rparr>],
               avail := avail h - ?s\<rparr>"
  have rd: "read_block ?h1 (m_data v) ?s = Some (elements h v)"
    using read_block_ext [of ?s h "m_data v" ?h1] assms(1)
    by (simp add: buffer_def elements_def)
  have len: "length (elements h v) = ?s"
    using assms(1) by (simp add: elements_def)
  have wr: "write_block ?h1 (Some (length (blocks h))) (elements h v) =
              Some (h\<lparr>blocks := blocks h @ [\<lparr>cells = elements h v, owners = 1\<rparr>],
                     avail := avail h - ?s\<rparr>)"
    using len
    by (cases "?s = 0") (auto simp: write_block_def live_def cells_at_def set_cells_def)
  show ?thesis
    using assms(2) rd wr
    by (simp add: Vector_copy_def allocate_vector_def new_array_ok std_copy_def size_vec_def
        release_def)
qed


lemma reserve_grow:
  assumes "m_size v \<le> length (buffer h v)"
    and "c = (if n = 0 then 2 else n)"
    and "m_capacity v < c"
    and "m_size v \<le> c"
    and "m_size v + c \<le> avail h"
    and "allocated h (m_data v)"
  shows "reserve h v n =
           Return ()
             (h\<lparr>blocks := blocks (release h (m_data v)) @
                   [\<lparr>cells = elements h v, owners = 0\<rparr>,
                    \<lparr>cells = elements h v @ replicate (c - m_size v) (fresh h), owners = 1\<rparr>],
                avail := avail h - m_size v - c\<rparr>,
              v\<lparr>m_capacity := c, m_data := Some (Suc (length (blocks h)))\<rparr>)"
proof -
  let ?es = "elements h v"
  let ?s = "m_size v"
  let ?a1 = "length (blocks h)"
  let ?h1 = "h\<lparr>blocks := blocks h @ [\<lparr>cells = ?es, owners = 1\<rparr>], avail := avail h - ?s\<rparr>"
  let ?tmp = "\<lparr>m_data = Some ?a1, m_size = ?s, m_capacity = ?s\<rparr>"
  let ?h2 = "h\<lparr>blocks := blocks (release h (m_data v)) @
                 [\<lparr>cells = ?es, owners = 1\<rparr>, \<lparr>cells = replicate c (fresh h), owners = 1\<rparr>],
               avail := avail h - ?s - c\<rparr>"
  let ?h3 = "h\<lparr>blocks := blocks (release h (m_data v)) @
                 [\<lparr>cells = ?es, owners = 1\<rparr>,
                  \<lparr>cells = ?es @ replicate (c - ?s) (fresh h), owners = 1\<rparr>],
               avail := avail h - ?s - c\<rparr>"
  let ?v2 = "v\<lparr>m_capacity := c, m_data := Some (Suc ?a1)\<rparr>"
  have len: "length ?es = ?s"
    using assms(1) by (simp add: elements_def)
  have lr: "length (blocks (release h (m_data v))) = ?a1"
    by (simp add: release_fields)
  have cp: "Vector_copy h v = Return () (?h1, ?tmp)"
    using assms by (simp add: Vector_copy_ok)
  have al: "allocate_vector ?h1 (v\<lparr>m_capacity := c\<rparr>) c = Return () (?h2, ?v2)"
    using assms(5,6)
    by (cases "m_data v")
       (auto simp: allocate_vector_def new_array_def release_def allocated_def list_update_append
          nth_append)
  have rd: "read_block ?h2 (Some ?a1) ?s = Some ?es"
    using len lr
    by (cases "?s = 0") (auto simp: read_block_def live_def cells_at_def nth_append)
  have wr: "write_block ?h2 (Some (Suc ?a1)) ?es = Some ?h3"
    using len lr assms(4)
    by (cases "?s = 0")
       (auto simp: write_block_def live_def cells_at_def set_cells_def nth_append
          list_update_append)
  have rl: "release ?h3 (Some ?a1) =
            h\<lparr>blocks := blocks (release h (m_data v)) @
                   [\<lparr>cells = ?es, owners = 0\<rparr>,
                    \<lparr>cells = ?es @ replicate (c - ?s) (fresh h), owners = 1\<rparr>],
                avail := avail h - ?s - c\<rparr>"
    using lr by (simp add: release_def nth_append list_update_append)
  show ?thesis
    using assms(2,3) cp al rd wr rl
    by (simp add: reserve_def capacity_def Let_def std_copy_def)
qed

lemma reserve_grow_props:
  assumes "m_size v \<le> length (buffer h v)"
    and "c = (if n = 0 then 2 else n)"
    and "m_capacity v < c"
    and "m_size v \<le> c"
    and "m_size v + c \<le> avail h"
    and "allocated h (m_data v)"
  shows "\<exists>h'. reserve h v n =
                 Return () (h', v\<lparr>m_capacity := c, m_data := Some (Suc (length (blocks h)))\<rparr>)
           \<and> live h' (Suc (length (blocks h)))
           \<and> cells_at h' (Suc (length (blocks h))) =
               elements h v @ replicate (c - m_size v) (fresh h)
           \<and> length (blocks h') = length (blocks h) + 2
           \<and> extends h (m_data v) h'"
proof -
  let ?h' = "h\<lparr>blocks := blocks (release h (m_data v)) @
                   [\<lparr>cells = elements h v, owners = 0\<rparr>,
                    \<lparr>cells = elements h v @ replicate (c - m_size v) (fresh h), owners = 1\<rparr>],
                avail := avail h - m_size v - c\<rparr>"
  have lr: "length (blocks (release h (m_data v))) = length (blocks h)"
    by (simp add: release_fields)
  have r: "reserve h v n =
             Return () (?h', v\<lparr>m_capacity := c, m_data := Some (Suc (length (blocks h)))\<rparr>)"
    using assms by (rule reserve_grow)
  have l: "live ?h' (Suc (length (blocks h)))"
    using lr by (simp add: live_def nth_append)
  have c: "cells_at ?h' (Suc (length (blocks h))) =
             elements h v @ replicate (c - m_size v) (fresh h)"
    using lr by (simp add: cells_at_def nth_append)
  have e: "extends h (m_data v) ?h'"
  proof -
    have "live ?h' b = live h b \<and> cells_at ?h' b = cells_at h b"
      if "b < length (blocks h)" "Some b \<noteq> m_data v" for b
    proof -
      have "live ?h' b = live (release h (m_data v)) b"
        using that lr by (simp add: live_def nth_append)
      moreover have "cells_at ?h' b = cells_at (release h (m_data v)) b"
        using that lr by (simp add: cells_at_def nth_append)
      ultimately show ?thesis
        using that(2) by (simp add: live_release_other cells_at_release)
    qed
    then show ?thesis
      using lr by (simp add: extends_def)
  qed
  from r l c e lr show ?thesis
    by (intro exI [of _ ?h']) simp
qed

section \<open>The loops\<close>

lemma shifted_left_done: "\<not> i < bound \<Longrightarrow> shifted_left xs i bound = xs"
  by (intro nth_equalityI) (auto simp: shifted_left_def)

lemma shifted_left_step:
  "i < bound \<Longrightarrow> bound < length xs \<Longrightarrow>
   shifted_left (xs[i := xs ! Suc i]) (Suc i) bound = shifted_left xs i bound"
proof (intro nth_equalityI)
  show "length (shifted_left (xs[i := xs ! Suc i]) (Suc i) bound) = length (shifted_left xs i bound)"
    by (simp add: shifted_left_def)
next
  fix j
  assume "i < bound" "bound < length xs"
    and "j < length (shifted_left (xs[i := xs ! Suc i]) (Suc i) bound)"
  then show "shifted_left (xs[i := xs ! Suc i]) (Suc i) bound ! j = shifted_left xs i bound ! j"
    by (cases "j = i") (auto simp: shifted_left_def)
qed

lemma shifted_right_done: "i < lo \<Longrightarrow> shifted_right xs n lo i = xs"
  by (intro nth_equalityI) (auto simp: shifted_right_def)

lemma shifted_right_step:
  assumes "lo \<le> i" "0 < lo" "i < length xs"
  shows "shifted_right (xs[i := xs ! (i - n)]) n lo (i - 1) = shifted_right xs n lo i"
proof (intro nth_equalityI)
  show "length (shifted_right (xs[i := xs ! (i - n)]) n lo (i - 1)) = length (shifted_right xs n lo i)"
    by (simp add: shifted_right_def)
next
  fix j
  assume "j < length (shifted_right (xs[i := xs ! (i - n)]) n lo (i - 1))"
  then have j: "j < length xs" by (simp add: shifted_right_def)
  show "shifted_right (xs[i := xs ! (i - n)]) n lo (i - 1) ! j = shifted_right xs n lo i ! j"
  proof (cases "j = i")
    case True
    with assms j show ?thesis by (simp add: shifted_right_def)
  next
    case False
    with assms j show ?thesis by (auto simp: shifted_right_def nth_list_update)
  qed
qed

lemma take_shifted_left:
  assumes "p < s" "s \<le> length xs"
  shows "take (s - 1) (shifted_left xs p (s - 1)) = take p (take s xs) @ drop (Suc p) (take s xs)"
proof (intro nth_equalityI)
  show "length (take (s - 1) (shifted_left xs p (s - 1))) =
        length (take p (take s xs) @ drop (Suc p) (take s xs))"
    using assms by (simp add: shifted_left_def)
next
  fix j
  assume "j < length (take (s - 1) (shifted_left xs p (s - 1)))"
  then have j: "j < s - 1" by simp
  show "take (s - 1) (shifted_left xs p (s - 1)) ! j =
        (take p (take s xs) @ drop (Suc p) (take s xs)) ! j"
    using assms j by (auto simp: shifted_left_def nth_append)
qed

lemma length_shifted_right: "length (shifted_right xs n lo i) = length xs"
  by (simp add: shifted_right_def)

lemma shifted_right_nth:
  "j < length xs \<Longrightarrow>
   shifted_right xs n lo i ! j = (if lo \<le> j \<and> j \<le> i then xs ! (j - n) else xs ! j)"
  by (simp add: shifted_right_def)

lemma length_inserted:
  "p + length args \<le> length xs \<Longrightarrow> length (inserted xs s p args) = length xs"
  by (simp add: inserted_def length_shifted_right)

lemma take_inserted:
  assumes "p \<le> s" and "s + length args \<le> length xs"
  shows "take (s + length args) (inserted xs s p args) =
         take p (take s xs) @ args @ drop p (take s xs)"
proof (intro nth_equalityI)
  show "length (take (s + length args) (inserted xs s p args)) =
        length (take p (take s xs) @ args @ drop p (take s xs))"
    using assms by (simp add: length_inserted)
next
  fix j
  assume "j < length (take (s + length args) (inserted xs s p args))"
  then have j: "j < s + length args" by simp
  let ?n = "length args"
  let ?X = "shifted_right xs ?n (p + ?n) (s + ?n - 1)"
  consider "j < p" | "p \<le> j" "j < p + ?n" | "p + ?n \<le> j" by linarith
  then show "take (s + length args) (inserted xs s p args) ! j =
        (take p (take s xs) @ args @ drop p (take s xs)) ! j"
  proof cases
    case 1
    have "j < length xs" using assms j by linarith
    then have "?X ! j = xs ! j"
      using 1 by (simp add: shifted_right_nth)
    with 1 assms j show ?thesis
      by (simp add: inserted_def nth_append length_shifted_right)
  next
    case 2
    then have "j - p < ?n" by linarith
    with 2 assms j show ?thesis
      by (simp add: inserted_def nth_append length_shifted_right)
  next
    case 3
    have "j < length xs" using assms j by linarith
    moreover have "j \<le> s + ?n - 1" using j by linarith
    ultimately have "?X ! j = xs ! (j - ?n)"
      using 3 by (simp add: shifted_right_nth)
    moreover have "p + ?n + (j - p - ?n) = j" using 3 by simp
    moreover have "p + (j - p - ?n) = j - ?n" using 3 by simp
    ultimately show ?thesis
      using 3 assms j
      by (simp add: inserted_def nth_append length_shifted_right)
  qed
qed

lemma inserted_nth_p:
  "args \<noteq> [] \<Longrightarrow> p + length args \<le> length xs \<Longrightarrow> inserted xs s p args ! p = hd args"
  by (cases args) (simp_all add: inserted_def nth_append length_shifted_right)

lemma erase_loop_ok:
  "it_data it = Some a \<Longrightarrow> live h a \<Longrightarrow> bound < length (cells_at h a) \<Longrightarrow>
   erase_loop h it i bound = Some (set_cells h a (shifted_left (cells_at h a) i bound))"
proof (induction h it i bound rule: erase_loop.induct)
  case (1 h it i bound)
  show ?case
  proof (cases "i < bound")
    case False
    then show ?thesis
      by (subst erase_loop.simps) (simp add: shifted_left_done set_cells_same)
  next
    case True
    let ?xs = "cells_at h a"
    let ?h1 = "set_cells h a (?xs[i := ?xs ! Suc i])"
    have g: "iter_get h it (i + 1) = Some (?xs ! Suc i)"
      using 1(2,3,4) True by (simp add: iter_get_def buf_read_ok)
    have s: "iter_set h it i (?xs ! Suc i) = Some ?h1"
      using 1(2,3,4) True by (simp add: iter_set_def buf_write_ok)
    have la: "a < length (blocks h)" using 1(3) by (simp add: live_def)
    have c1: "cells_at ?h1 a = ?xs[i := ?xs ! Suc i]"
      using la by (simp add: cells_at_set_cells)
    have ih: "erase_loop ?h1 it (i + 1) bound =
                Some (set_cells ?h1 a (shifted_left (cells_at ?h1 a) (i + 1) bound))"
      using 1(2,3,4) c1 by (intro 1(1) [OF True g s]) (simp_all add: live_set_cells)
    have step: "erase_loop h it i bound = erase_loop ?h1 it (i + 1) bound"
      using True g s by (subst erase_loop.simps) simp
    have eq: "shifted_left (?xs[i := ?xs ! Suc i]) (Suc i) bound = shifted_left ?xs i bound"
      using True 1(4) by (rule shifted_left_step)
    have fin: "set_cells ?h1 a (shifted_left (cells_at ?h1 a) (i + 1) bound) =
               set_cells h a (shifted_left ?xs i bound)"
      using eq by (simp add: c1 set_cells_twice)
    show ?thesis
      by (simp only: step ih fin)
  qed
qed

lemma shift_loop_ok:
  "it_data it = Some a \<Longrightarrow> live h a \<Longrightarrow> i < length (cells_at h a) \<Longrightarrow>
   n \<le> lo \<Longrightarrow> 0 < lo \<Longrightarrow> i \<le> SIZE_MAX \<Longrightarrow>
   shift_loop h it n lo i = Some (set_cells h a (shifted_right (cells_at h a) n lo i))"
proof (induction h it n lo i rule: shift_loop.induct)
  case (1 h it n lo i)
  show ?case
  proof (cases "lo \<le> i")
    case False
    then show ?thesis
      by (subst shift_loop.simps) (simp add: shifted_right_done set_cells_same)
  next
    case True
    let ?xs = "cells_at h a"
    let ?h1 = "set_cells h a (?xs[i := ?xs ! (i - n)])"
    have sub: "sz_sub i n = i - n"
      using True 1(5,7) by (simp add: sz_sub_small)
    have g: "iter_get h it (sz_sub i n) = Some (?xs ! (i - n))"
      using 1(2,3,4) sub by (simp add: iter_get_def buf_read_ok)
    have s: "iter_set h it i (?xs ! (i - n)) = Some ?h1"
      using 1(2,3,4) by (simp add: iter_set_def buf_write_ok)
    have nz: "i \<noteq> 0" using True 1(6) by simp
    have la: "a < length (blocks h)" using 1(3) by (simp add: live_def)
    have c1: "cells_at ?h1 a = ?xs[i := ?xs ! (i - n)]"
      using la by (simp add: cells_at_set_cells)
    have ih: "shift_loop ?h1 it n lo (i - 1) =
                Some (set_cells ?h1 a (shifted_right (cells_at ?h1 a) n lo (i - 1)))"
      using 1(2,3,4,5,6,7) c1 by (intro 1(1) [OF True g s nz]) (simp_all add: live_set_cells)
    have step: "shift_loop h it n lo i = shift_loop ?h1 it n lo (i - 1)"
      using True g s nz by (subst shift_loop.simps) simp
    have eq: "shifted_right (?xs[i := ?xs ! (i - n)]) n lo (i - 1) = shifted_right ?xs n lo i"
      using True 1(4,6) by (intro shifted_right_step)
    have fin: "set_cells ?h1 a (shifted_right (cells_at ?h1 a) n lo (i - 1)) =
               set_cells h a (shifted_right ?xs n lo i)"
      using eq by (simp add: c1 set_cells_twice)
    show ?thesis
      by (simp only: step ih fin)
  qed
qed

lemma outside_read: "outside h v x \<Longrightarrow> arg_read h x = Some (arg_value h x)"
  by (cases x) (auto simp: outside_def arg_read_def arg_value_def buf_read_def)

lemma outside_extends:
  assumes "extends h (m_data v) h'" and "outside h v x"
    and "m_data v' = m_data v \<or> (\<exists>a'. m_data v' = Some a' \<and> length (blocks h) \<le> a')"
  shows "outside h' v' x \<and> arg_value h' x = arg_value h x"
proof (cases x)
  case (Value y)
  then show ?thesis by (simp add: outside_def arg_value_def)
next
  case (Slot r)
  with assms(2) have r: "Some (fst r) \<noteq> m_data v" "slot h (Some (fst r)) (snd r) = Some r"
    by (simp_all add: outside_def)
  then have lv: "live h (fst r)" "snd r < length (cells_at h (fst r))"
    by (auto simp: slot_def split: if_splits)
  then have lt: "fst r < length (blocks h)" by (simp add: live_def)
  with assms(1) r(1) have k: "live h' (fst r) = live h (fst r)"
      "cells_at h' (fst r) = cells_at h (fst r)"
    by (auto simp: extends_def)
  have ne: "Some (fst r) \<noteq> m_data v'"
    using assms(3) r(1) lt by auto
  have "slot h' (Some (fst r)) (snd r) = Some r"
    using lv k by (simp add: slot_def)
  with ne k Slot show ?thesis
    by (simp add: outside_def arg_value_def ref_get_def)
qed

lemma write_args_ok:
  "it_data it = Some a \<Longrightarrow> m_data v = Some a \<Longrightarrow> live h a \<Longrightarrow>
   i + length args \<le> length (cells_at h a) \<Longrightarrow> i + length args \<le> SIZE_MAX \<Longrightarrow>
   list_all (outside h v) args \<Longrightarrow>
   write_args h it i args =
     Some (set_cells h a (take i (cells_at h a) @ map (arg_value h) args @
                          drop (i + length args) (cells_at h a)))"
proof (induction args arbitrary: h i)
  case Nil
  then show ?case by (simp add: set_cells_same)
next
  case (Cons x xs)
  let ?b = "cells_at h a"
  let ?y = "arg_value h x"
  let ?h1 = "set_cells h a (?b[i := ?y])"
  have la: "a < length (blocks h)" using Cons.prems(3) by (simp add: live_def)
  have ox: "outside h v x" and oxs: "list_all (outside h v) xs"
    using Cons.prems(6) by simp_all
  have rd: "arg_read h x = Some ?y"
    using ox by (rule outside_read)
  have s: "iter_set h it i ?y = Some ?h1"
    using Cons.prems by (simp add: iter_set_def buf_write_ok)
  have nx: "sz_add i 1 = Suc i"
    using Cons.prems(5) by (simp add: sz_add_small)
  have c1: "cells_at ?h1 a = ?b[i := ?y]"
    using la by (simp add: cells_at_set_cells)
  have ex: "extends h (m_data v) ?h1"
    using Cons.prems(2) by (simp add: extends_set_cells)
  have o1: "list_all (outside ?h1 v) xs" and v1: "map (arg_value ?h1) xs = map (arg_value h) xs"
    using oxs outside_extends [OF ex, of _ v] by (auto simp: list_all_iff)
  have ih: "write_args ?h1 it (Suc i) xs =
              Some (set_cells ?h1 a (take (Suc i) (cells_at ?h1 a) @ map (arg_value ?h1) xs @
                                     drop (Suc i + length xs) (cells_at ?h1 a)))"
    using Cons.prems(1,2,3,4,5) o1 c1
    by (intro Cons.IH) (simp_all add: live_set_cells)
  have tk: "take (Suc i) (?b[i := ?y]) = take i ?b @ [?y]"
    using Cons.prems(4) by (simp add: take_Suc_conv_app_nth)
  have "write_args h it i (x # xs) = write_args ?h1 it (Suc i) xs"
    using rd s nx by simp
  also note ih
  finally show ?case
    by (simp add: c1 v1 tk set_cells_twice)
qed

section \<open>erase, checked access, set\_element and the move constructor\<close>

text \<open>
  Claim C8. For a vector that holds at least one element, whose buffer has a slot for
  each element, and a position iterator at offset \<open>p\<close> below the size, \<open>erase\<close>
  returns, takes one off the size and leaves the capacity alone; the elements are then
  the ones before \<open>p\<close>, unchanged, followed by the ones after \<open>p\<close>, each moved
  one slot to the left.
\<close>

theorem erase_shifts_left:
  assumes "m_size v \<le> length (buffer h v)" and "m_size v \<le> SIZE_MAX"
    and "it_index pos = p" and "p < m_size v"
  shows "\<exists>h'. erase h v pos = Return () (h', v\<lparr>m_size := m_size v - 1\<rparr>)
           \<and> elements h' (v\<lparr>m_size := m_size v - 1\<rparr>) =
               take p (elements h v) @ drop (Suc p) (elements h v)"
proof -
  let ?s = "m_size v"
  have sp: "0 < ?s" using assms(4) by linarith
  from buffer_slot [OF sp assms(1)] obtain a where
    a: "m_data v = Some a" "live h a" "cells_at h a = buffer h v"
    by auto
  let ?xs = "cells_at h a"
  let ?h' = "set_cells h a (shifted_left ?xs p (?s - 1))"
  have la: "a < length (blocks h)" using a(2) by (simp add: live_def)
  have d: "distance (begin_it v) pos = p"
    using assms(2,3,4) by (simp add: distance_def begin_it_def iterator_ctor_def sz_sub_small)
  have b: "sz_sub ?s 1 = ?s - 1"
    using assms(2,4) by (simp add: sz_sub_small)
  have bd: "?s - 1 < length ?xs" using sp assms(1) a(3) by simp
  have lp: "erase_loop h (begin_it v) p (?s - 1) = Some ?h'"
    using a bd by (intro erase_loop_ok) (simp_all add: begin_it_def iterator_ctor_def)
  have r: "erase h v pos = Return () (?h', v\<lparr>m_size := ?s - 1\<rparr>)"
    using d b lp by (simp add: erase_def size_vec_def Let_def)
  have "elements ?h' (v\<lparr>m_size := ?s - 1\<rparr>) = take (?s - 1) (shifted_left ?xs p (?s - 1))"
    using a la by (simp add: elements_def buffer_def block_at_def store_simps)
  also have "\<dots> = take p (take ?s ?xs) @ drop (Suc p) (take ?s ?xs)"
    using assms(1,4) a(3) by (intro take_shifted_left) simp_all
  also have "\<dots> = take p (elements h v) @ drop (Suc p) (elements h v)"
    using a(3) by (simp add: elements_def)
  finally show ?thesis using r by blast
qed

theorem erase_shifts_left_witness:
  "m_size vec1234 \<le> length (buffer heap1234 vec1234) \<and> m_size vec1234 \<le> SIZE_MAX
   \<and> it_index (it_at vec1234 1) = 1 \<and> 1 < m_size vec1234
   \<and> (\<exists>h'. erase heap1234 vec1234 (it_at vec1234 1) =
              Return () (h', \<lparr>m_data = Some 0, m_size = 3, m_capacity = 4\<rparr>)
          \<and> elements h' \<lparr>m_data = Some 0, m_size = 3, m_capacity = 4\<rparr> = [1, 3, 4])"
proof -
  have h1: "m_size vec1234 \<le> length (buffer heap1234 vec1234)"
    by (simp add: vec1234_def heap1234_def buffer_def block_at_def live_def cells_at_def)
  have h2: "m_size vec1234 \<le> SIZE_MAX"
    unfolding SIZE_MAX_less by (simp add: vec1234_def)
  have h3: "it_index (it_at vec1234 1) = 1"
    by (simp add: it_at_def)
  have h4: "1 < m_size vec1234"
    by (simp add: vec1234_def)
  have e: "elements heap1234 vec1234 = [1, 2, 3, 4]"
    by (simp add: vec1234_def heap1234_def elements_def buffer_def block_at_def live_def
        cells_at_def)
  have v: "vec1234\<lparr>m_size := m_size vec1234 - 1\<rparr> = \<lparr>m_data = Some 0, m_size = 3, m_capacity = 4\<rparr>"
    by (simp add: vec1234_def)
  have t: "take 1 [1, 2, 3, 4 :: int] @ drop (Suc 1) [1, 2, 3, 4] = [1, 3, 4]"
    by simp
  have "\<exists>h'. erase heap1234 vec1234 (it_at vec1234 1) =
              Return () (h', \<lparr>m_data = Some 0, m_size = 3, m_capacity = 4\<rparr>)
          \<and> elements h' \<lparr>m_data = Some 0, m_size = 3, m_capacity = 4\<rparr> = [1, 3, 4]"
    using erase_shifts_left [OF h1 h2 h3 h4] unfolding v e t .
  with h1 h2 h3 h4 show ?thesis by blast
qed

lemma at_throws_iff: "(at h v pos = Throw OutOfRange (h, v)) = (m_size v \<le> pos)"
  by (auto simp: at_def iter_plus_def begin_it_def iterator_ctor_def split: option.splits)

lemma at_returns:
  assumes "pos < m_size v" and "m_size v \<le> length (buffer h v)"
  shows "at h v pos = Return (the (m_data v), pos) (h, v) \<and>
         ref_get h (the (m_data v), pos) = elements h v ! pos"
proof -
  have sp: "0 < m_size v" using assms(1) by linarith
  from buffer_slot [OF sp assms(2)] obtain a where
    a: "m_data v = Some a" "live h a" "cells_at h a = buffer h v"
    by auto
  have "slot h (Some a) pos = Some (a, pos)"
    using a assms by (intro slot_ok) simp_all
  then show ?thesis
    using a assms
    by (simp add: at_def iter_plus_def begin_it_def iterator_ctor_def iter_deref_def
        ref_get_def elements_def)
qed

text \<open>
  Claim C5. \<open>at\<close> and \<open>operator[]\<close> throw \<open>OutOfRange\<close> exactly when the
  position is not below the size; below the size, on a vector whose buffer has a slot for
  each element, both return a reference to the element at that position and leave the
  vector as it is; \<open>front\<close> and \<open>back\<close> throw \<open>OutOfRange\<close> on an empty vector.
\<close>

theorem checked_access:
  "(at h v pos = Throw OutOfRange (h, v)) = (m_size v \<le> pos)
   \<and> (subscript h v pos = Throw OutOfRange (h, v)) = (m_size v \<le> pos)
   \<and> (pos < m_size v \<and> m_size v \<le> length (buffer h v) \<longrightarrow>
        (\<exists>r. at h v pos = Return r (h, v) \<and> subscript h v pos = Return r (h, v)
             \<and> ref_get h r = elements h v ! pos))
   \<and> (m_size w = 0 \<longrightarrow>
        front h w = Throw OutOfRange (h, w) \<and> back_vec h w = Throw OutOfRange (h, w))"
proof (intro conjI impI)
  show "(at h v pos = Throw OutOfRange (h, v)) = (m_size v \<le> pos)"
    by (rule at_throws_iff)
  show "(subscript h v pos = Throw OutOfRange (h, v)) = (m_size v \<le> pos)"
    unfolding subscript_def by (rule at_throws_iff)
next
  assume "pos < m_size v \<and> m_size v \<le> length (buffer h v)"
  then show "\<exists>r. at h v pos = Return r (h, v) \<and> subscript h v pos = Return r (h, v)
             \<and> ref_get h r = elements h v ! pos"
    using at_returns [of pos v h] by (auto simp: subscript_def)
next
  assume "m_size w = 0"
  then show "front h w = Throw OutOfRange (h, w)"
    by (simp add: front_def at_def)
next
  assume "m_size w = 0"
  then show "back_vec h w = Throw OutOfRange (h, w)"
    by (simp add: back_vec_def at_def)
qed

theorem checked_access_witness:
  "at heap1234 vec1234 1 = Return (0, 1) (heap1234, vec1234)
   \<and> subscript heap1234 vec1234 1 = Return (0, 1) (heap1234, vec1234)
   \<and> ref_get heap1234 (0, 1) = 2
   \<and> at heap1234 vec1234 4 = Throw OutOfRange (heap1234, vec1234)
   \<and> front heap1234 Vector_default = Throw OutOfRange (heap1234, Vector_default)
   \<and> back_vec heap1234 Vector_default = Throw OutOfRange (heap1234, Vector_default)"
proof -
  have a: "(1::nat) < m_size vec1234 \<and> m_size vec1234 \<le> length (buffer heap1234 vec1234)"
    by (simp add: vec1234_def heap1234_def buffer_def block_at_def live_def cells_at_def)
  have z: "m_size Vector_default = 0"
    by (simp add: Vector_default_def)
  have e: "elements heap1234 vec1234 ! 1 = 2"
    by (simp add: vec1234_def heap1234_def elements_def buffer_def block_at_def live_def
        cells_at_def)
  have t: "at heap1234 vec1234 4 = Throw OutOfRange (heap1234, vec1234)"
    using checked_access [of heap1234 vec1234 4 Vector_default] by (simp add: vec1234_def)
  have r: "at heap1234 vec1234 1 = Return (0, 1) (heap1234, vec1234)"
    using at_returns [of 1 vec1234 heap1234] a by (simp add: vec1234_def)
  from checked_access [of heap1234 vec1234 1 Vector_default] a z e r t
  show ?thesis by auto
qed

text \<open>
  Claim C9. \<open>set_element\<close> at a position below the size writes the value into that
  element and returns the vector object unchanged, so the size and the capacity are the
  same and every other slot of the buffer keeps its value; at a position that is not below
  the size it throws \<open>OutOfRange\<close> and the store and the vector are as before.
\<close>

theorem set_element_frame:
  "(pos < m_size v \<and> m_size v \<le> length (buffer h v) \<longrightarrow>
      (\<exists>h'. set_element h v pos x = Return () (h', v)
            \<and> elements h' v = (elements h v)[pos := x]
            \<and> buffer h' v = (buffer h v)[pos := x]))
   \<and> (m_size v \<le> pos2 \<longrightarrow> set_element h v pos2 x = Throw OutOfRange (h, v))"
proof (intro conjI impI)
  assume p: "pos < m_size v \<and> m_size v \<le> length (buffer h v)"
  then have sp: "0 < m_size v" by linarith
  from buffer_slot [OF sp] p obtain a where
    a: "m_data v = Some a" "live h a" "cells_at h a = buffer h v"
    by auto
  let ?h' = "ref_set h (a, pos) x"
  have la: "a < length (blocks h)" using a(2) by (simp add: live_def)
  have r: "set_element h v pos x = Return () (?h', v)"
    using at_returns [of pos v h] p a by (simp add: set_element_def)
  have b: "buffer ?h' v = (buffer h v)[pos := x]"
    using a la by (simp add: buffer_def block_at_def ref_set_def store_simps)
  have "elements ?h' v = (elements h v)[pos := x]"
    unfolding elements_def b by (simp add: take_update_swap)
  with r b show "\<exists>h'. set_element h v pos x = Return () (h', v)
            \<and> elements h' v = (elements h v)[pos := x]
            \<and> buffer h' v = (buffer h v)[pos := x]"
    by blast
next
  assume "m_size v \<le> pos2"
  then show "set_element h v pos2 x = Throw OutOfRange (h, v)"
    by (simp add: set_element_def at_def)
qed

theorem set_element_frame_witness:
  "(\<exists>h'. set_element heap1234 vec1234 1 9 = Return () (h', vec1234)
        \<and> elements h' vec1234 = [1, 9, 3, 4])
   \<and> set_element heap1234 vec1234 4 9 = Throw OutOfRange (heap1234, vec1234)"
proof -
  have a: "(1::nat) < m_size vec1234 \<and> m_size vec1234 \<le> length (buffer heap1234 vec1234)"
    by (simp add: vec1234_def heap1234_def buffer_def block_at_def live_def cells_at_def)
  have b: "m_size vec1234 \<le> 4"
    by (simp add: vec1234_def)
  have e: "(elements heap1234 vec1234)[1 := 9] = [1, 9, 3, 4]"
    by (simp add: vec1234_def heap1234_def elements_def buffer_def block_at_def live_def
        cells_at_def)
  from set_element_frame [of 1 vec1234 heap1234 9 4] a b
  show ?thesis unfolding e by blast
qed

text \<open>
  Claim C10. The move constructor gives the new vector the buffer of the source, the size
  of the source, and a capacity equal to the size of the source (not to its capacity); the
  new vector holds the elements of the source, and the source is left with size 0 and
  capacity 0.
\<close>

theorem move_constructor_takes_size:
  "capacity (fst (Vector_move a)) = size_vec a
   \<and> size_vec (fst (Vector_move a)) = size_vec a
   \<and> m_data (fst (Vector_move a)) = m_data a
   \<and> elements h (fst (Vector_move a)) = elements h a
   \<and> size_vec (snd (Vector_move a)) = 0
   \<and> capacity (snd (Vector_move a)) = 0"
  by (simp add: Vector_move_def capacity_def size_vec_def elements_def buffer_def)

section \<open>reserve and shrink\_to\_fit\<close>








section \<open>Runs on the example store\<close>

lemma replicate_numeral: "replicate (numeral k) x = x # replicate (pred_numeral k) x"
  by (simp add: numeral_eq_Suc)

lemma list_update_numeral: "(x # xs)[numeral k := y] = x # xs[pred_numeral k := y]"
  by (simp add: numeral_eq_Suc)

lemmas run_defs =
  Vector_items_def Vector_copy_def allocate_vector_def new_array_def std_copy_def
  read_block_def write_block_def reserve_def shrink_to_fit_def insert_many_back_def
  buf_read_def buf_write_def slot_def ref_get_def ref_set_def arg_read_def
  live_def cells_at_def set_cells_def release_def acquire_def
  size_vec_def capacity_def sz_mul_def sz_add_def
  Let_def heap0_def replicate_numeral list_update_numeral



text \<open>
  Claim C2 at its scenario. From \<open>{1, 2}\<close> at capacity 2, \<open>insert_many_back(1, 2, 3, 4, 5)\<close>
  finds the size equal to the capacity and reserves \<open>2 * 2 = 4\<close> slots; it then writes
  five values from slot 2 on, and the third of them falls outside the four-slot buffer.
\<close>

theorem insert_many_back_overruns:
  "Vector_items heap0 [1, 2] =
     Return () (\<lparr>blocks = [\<lparr>cells = [1, 2], owners = 1\<rparr>], avail = 98, fresh = 0\<rparr>,
                \<lparr>m_data = Some 0, m_size = 2, m_capacity = 2\<rparr>)
   \<and> reserve \<lparr>blocks = [\<lparr>cells = [1, 2], owners = 1\<rparr>], avail = 98, fresh = 0 :: int\<rparr>
        \<lparr>m_data = Some 0, m_size = 2, m_capacity = 2\<rparr> (sz_mul 2 2) =
     Return () (\<lparr>blocks = [\<lparr>cells = [1, 2], owners = 0\<rparr>, \<lparr>cells = [1, 2], owners = 0\<rparr>,
                            \<lparr>cells = [1, 2, 0, 0], owners = 1\<rparr>],
                  avail = 92, fresh = 0\<rparr>,
                \<lparr>m_data = Some 2, m_size = 2, m_capacity = 4\<rparr>)
   \<and> insert_many_back \<lparr>blocks = [\<lparr>cells = [1, 2], owners = 1\<rparr>], avail = 98, fresh = 0 :: int\<rparr>
        \<lparr>m_data = Some 0, m_size = 2, m_capacity = 2\<rparr>
        [Value 1, Value 2, Value 3, Value 4, Value 5] =
     Abort MemoryFault"
  by (simp add: run_defs)

text \<open>
  Claim C3 fails on a vector reached by public operations only: build \<open>{1, 2, 3}\<close>,
  \<open>reserve(10)\<close>, move-construct a second vector from it (capacity 3, on the ten-slot
  buffer), \<open>pop_back\<close>, then \<open>insert_many_back(7, 8, 9)\<close>: the size is not equal to the
  capacity, so nothing is reserved, the three writes stay inside the buffer, and the vector
  ends with size 5 and capacity 3.
\<close>

theorem size_exceeds_capacity_reachable:
  "Vector_items heap0 [1, 2, 3] =
     Return () (\<lparr>blocks = [\<lparr>cells = [1, 2, 3], owners = 1\<rparr>], avail = 97, fresh = 0\<rparr>,
                \<lparr>m_data = Some 0, m_size = 3, m_capacity = 3\<rparr>)
   \<and> reserve \<lparr>blocks = [\<lparr>cells = [1, 2, 3], owners = 1\<rparr>], avail = 97, fresh = 0 :: int\<rparr>
        \<lparr>m_data = Some 0, m_size = 3, m_capacity = 3\<rparr> 10 =
     Return () (\<lparr>blocks = [\<lparr>cells = [1, 2, 3], owners = 0\<rparr>, \<lparr>cells = [1, 2, 3], owners = 0\<rparr>,
                            \<lparr>cells = [1, 2, 3, 0, 0, 0, 0, 0, 0, 0], owners = 1\<rparr>],
                  avail = 84, fresh = 0\<rparr>,
                \<lparr>m_data = Some 2, m_size = 3, m_capacity = 10\<rparr>)
   \<and> Vector_move \<lparr>m_data = Some 2, m_size = 3, m_capacity = 10\<rparr> =
     (\<lparr>m_data = Some 2, m_size = 3, m_capacity = 3\<rparr>,
      \<lparr>m_data = None, m_size = 0, m_capacity = 0\<rparr>)
   \<and> pop_back \<lparr>m_data = Some 2, m_size = 3, m_capacity = 3\<rparr> =
     \<lparr>m_data = Some 2, m_size = 2, m_capacity = 3\<rparr>
   \<and> insert_many_back
        \<lparr>blocks = [\<lparr>cells = [1, 2, 3], owners = 0\<rparr>, \<lparr>cells = [1, 2, 3], owners = 0\<rparr>,
                   \<lparr>cells = [1, 2, 3, 0, 0, 0, 0, 0, 0, 0], owners = 1\<rparr>],
          avail = 84, fresh = 0 :: int\<rparr>
        \<lparr>m_data = Some 2, m_size = 2, m_capacity = 3\<rparr> [Value 7, Value 8, Value 9] =
     Return () (\<lparr>blocks = [\<lparr>cells = [1, 2, 3], owners = 0\<rparr>, \<lparr>cells = [1, 2, 3], owners = 0\<rparr>,
                            \<lparr>cells = [1, 2, 7, 8, 9, 0, 0, 0, 0, 0], owners = 1\<rparr>],
                  avail = 84, fresh = 0\<rparr>,
                \<lparr>m_data = Some 2, m_size = 5, m_capacity = 3\<rparr>)
   \<and> capacity \<lparr>m_data = Some 2, m_size = 5, m_capacity = 3\<rparr> <
       size_vec \<lparr>m_data = Some 2, m_size = 5, m_capacity = 3\<rparr>"
  by (simp add: run_defs Vector_move_def pop_back_def sz_sub_def)

text \<open>
  Claim C6 at the input of the test \<open>Capacity_reserve_4_throw\<close>: \<open>reserve(-2)\<close> on
  \<open>{1, 2, 3}\<close>. The request is \<open>2 ^ 64 - 2\<close>; the copy into \<open>tmp\<close> succeeds, the
  allocation of the new buffer fails, and the exception leaves the vector with its three
  elements, size 3 and capacity \<open>2 ^ 64 - 2\<close>.
\<close>

theorem reserve_failure_changes_capacity:
  "Vector_items heap0 [1, 2, 3] =
     Return () (\<lparr>blocks = [\<lparr>cells = [1, 2, 3], owners = 1\<rparr>], avail = 97, fresh = 0\<rparr>,
                \<lparr>m_data = Some 0, m_size = 3, m_capacity = 3\<rparr>)
   \<and> sz_sub 0 2 = 18446744073709551614
   \<and> reserve \<lparr>blocks = [\<lparr>cells = [1, 2, 3], owners = 1\<rparr>], avail = 97, fresh = 0 :: int\<rparr>
        \<lparr>m_data = Some 0, m_size = 3, m_capacity = 3\<rparr> 18446744073709551614 =
     Throw AllocationError
       (\<lparr>blocks = [\<lparr>cells = [1, 2, 3], owners = 1\<rparr>, \<lparr>cells = [1, 2, 3], owners = 0\<rparr>],
          avail = 94, fresh = 0\<rparr>,
        \<lparr>m_data = Some 0, m_size = 3, m_capacity = 18446744073709551614\<rparr>)"
  by (simp add: run_defs sz_sub_def)

section \<open>insert\_many\<close>

lemma insert_core:
  assumes "m_data v = Some a" and "live h a"
    and "m_size v + length args \<le> length (cells_at h a)"
    and "p \<le> m_size v" and "args \<noteq> []" and "m_size v + length args \<le> SIZE_MAX"
    and "list_all (outside h v) args"
  shows "\<exists>it h2. iter_plus (begin_it v) p = Inr it
           \<and> it = \<lparr>it_data = Some a, it_size = m_size v, it_index = p\<rparr>
           \<and> shift_loop h it (length args) (sz_add p (length args))
                (sz_sub (sz_add (size_vec v) (length args)) 1) = Some h2
           \<and> write_args h2 it p args =
                Some (set_cells h a
                        (inserted (cells_at h a) (m_size v) p (map (arg_value h) args)))"
proof -
  let ?n = "length args"
  let ?s = "m_size v"
  let ?xs = "cells_at h a"
  let ?it = "\<lparr>it_data = Some a, it_size = ?s, it_index = p\<rparr>"
  let ?X = "shifted_right ?xs ?n (p + ?n) (?s + ?n - 1)"
  let ?h2 = "set_cells h a ?X"
  have n: "0 < ?n" using assms(5) by simp
  have la: "a < length (blocks h)" using assms(2) by (simp add: live_def)
  have ip: "iter_plus (begin_it v) p = Inr ?it"
    using assms(1,4) by (simp add: iter_plus_def begin_it_def iterator_ctor_def)
  have lo: "sz_add p ?n = p + ?n"
    using assms(4,6) by (intro sz_add_small) simp
  have hi: "sz_sub (sz_add (size_vec v) ?n) 1 = ?s + ?n - 1"
  proof -
    have "sz_add ?s ?n = ?s + ?n" using assms(6) by (rule sz_add_small)
    moreover have "1 \<le> ?s + ?n" using n by linarith
    then have "sz_sub (?s + ?n) 1 = ?s + ?n - 1"
      using assms(6) by (rule sz_sub_small)
    ultimately show ?thesis by (simp add: size_vec_def)
  qed
  have top: "?s + ?n - 1 < length ?xs" using n assms(3) by linarith
  have top2: "?s + ?n - 1 \<le> SIZE_MAX" using assms(6) by linarith
  have sl: "shift_loop h ?it ?n (p + ?n) (?s + ?n - 1) = Some ?h2"
    using assms(2) top top2 n by (intro shift_loop_ok) simp_all
  have c2: "cells_at ?h2 a = ?X"
    using la by (simp add: cells_at_set_cells)
  have ex: "extends h (m_data v) ?h2"
    using assms(1) by (simp add: extends_set_cells)
  have o2: "list_all (outside ?h2 v) args" and v2: "map (arg_value ?h2) args = map (arg_value h) args"
    using assms(7) outside_extends [OF ex, of _ v] by (auto simp: list_all_iff)
  have pn: "p + ?n \<le> length (cells_at ?h2 a)"
    using assms(3,4) c2 by (simp add: length_shifted_right)
  have pm: "p + ?n \<le> SIZE_MAX" using assms(4,6) by linarith
  have wa: "write_args ?h2 ?it p args =
              Some (set_cells ?h2 a (take p (cells_at ?h2 a) @ map (arg_value ?h2) args @
                                     drop (p + ?n) (cells_at ?h2 a)))"
    using assms(1,2) pn pm o2 by (intro write_args_ok) (simp_all add: live_set_cells)
  have "set_cells ?h2 a (take p (cells_at ?h2 a) @ map (arg_value ?h2) args @
                         drop (p + ?n) (cells_at ?h2 a)) =
        set_cells ?h2 a (take p ?X @ map (arg_value h) args @ drop (p + ?n) ?X)"
    by (simp only: c2 v2)
  also have "\<dots> = set_cells h a (take p ?X @ map (arg_value h) args @ drop (p + ?n) ?X)"
    by (rule set_cells_twice)
  also have "\<dots> = set_cells h a (inserted ?xs ?s p (map (arg_value h) args))"
    by (simp only: inserted_def length_map)
  finally have fin: "set_cells ?h2 a (take p (cells_at ?h2 a) @ map (arg_value ?h2) args @
                         drop (p + ?n) (cells_at ?h2 a)) =
        set_cells h a (inserted ?xs ?s p (map (arg_value h) args))" .
  with wa have wa': "write_args ?h2 ?it p args =
      Some (set_cells h a (inserted ?xs ?s p (map (arg_value h) args)))"
    by simp
  show ?thesis
    using ip sl wa' unfolding lo hi by blast
qed

lemma insert_many_no_growth:
  assumes "m_capacity v \<le> length (buffer h v)"
    and "it_data pos = m_data v" and "it_index pos = p" and "p \<le> m_size v"
    and "args \<noteq> []" and "m_size v + length args \<le> SIZE_MAX"
    and "m_size v + length args \<le> m_capacity v"
    and "list_all (outside h v) args"
  shows "\<exists>h' r. insert_many h v pos args =
                  Return pos (h', v\<lparr>m_size := m_size v + length args\<rparr>)
           \<and> elements h' (v\<lparr>m_size := m_size v + length args\<rparr>) =
               take p (elements h v) @ map (arg_value h) args @ drop p (elements h v)
           \<and> iter_deref h' pos = Some r \<and> ref_get h' r = arg_value h (hd args)"
proof -
  let ?n = "length args"
  let ?s = "m_size v"
  let ?vals = "map (arg_value h) args"
  have n: "0 < ?n" using assms(5) by simp
  have pos: "0 < ?s + ?n" using n by linarith
  have le: "?s + ?n \<le> length (buffer h v)" using assms(1,7) by linarith
  from buffer_slot [OF pos le] obtain a where
    a: "m_data v = Some a" "live h a" "cells_at h a = buffer h v"
    by auto
  let ?xs = "cells_at h a"
  let ?B = "inserted ?xs ?s p ?vals"
  let ?h' = "set_cells h a ?B"
  let ?v' = "v\<lparr>m_size := ?s + ?n\<rparr>"
  have la: "a < length (blocks h)" using a(2) by (simp add: live_def)
  have fit: "?s + ?n \<le> length ?xs" using le a(3) by simp
  have fit': "?s + length ?vals \<le> length ?xs" using fit by simp
  from insert_core [OF a(1,2) fit assms(4,5,6,8)] obtain it h2 where
    c: "iter_plus (begin_it v) p = Inr it"
       "shift_loop h it ?n (sz_add p ?n) (sz_sub (sz_add (size_vec v) ?n) 1) = Some h2"
       "write_args h2 it p args = Some ?h'"
    by blast
  have d: "distance (begin_it v) pos = p"
    using assms(3,4,6)
    by (simp add: distance_def begin_it_def iterator_ctor_def sz_sub_small)
  have ad: "sz_add (size_vec v) ?n = ?s + ?n"
    using assms(6) by (simp add: size_vec_def sz_add_small)
  have ad2: "sz_add ?s ?n = ?s + ?n"
    using assms(6) by (simp add: sz_add_small)
  have ng: "\<not> capacity v < ?s + ?n"
    using assms(7) by (simp add: capacity_def)
  have r: "insert_many h v pos args = Return pos (?h', ?v')"
    using c d ng unfolding insert_many_def Let_def ad
    by (simp add: ad ad2)
  have pf: "p + length ?vals \<le> length ?xs" using assms(4) fit by simp
  have ch: "cells_at ?h' a = ?B" using la by (simp add: cells_at_set_cells)
  have e: "elements ?h' ?v' = take p (elements h v) @ ?vals @ drop p (elements h v)"
    using a(1,2) la take_inserted [OF assms(4) fit'] a(3) [symmetric]
    by (simp add: elements_def buffer_def block_at_def live_set_cells cells_at_set_cells)
  have "p + ?n \<le> length ?xs" using assms(4) fit by linarith
  then have "p < length ?xs" using n by linarith
  then have pl: "p < length ?B" using pf by (simp add: length_inserted)
  have dr: "iter_deref ?h' pos = Some (a, p)"
    using a(1,2) assms(2,3) pl la
    by (simp add: iter_deref_def slot_def live_set_cells cells_at_set_cells)
  have vn: "?vals \<noteq> []" using assms(5) by simp
  have "ref_get ?h' (a, p) = hd ?vals"
    using vn pf by (simp add: ref_get_def ch inserted_nth_p)
  then have rg: "ref_get ?h' (a, p) = arg_value h (hd args)"
    using assms(5) by (simp add: hd_map)
  from r e dr rg show ?thesis by blast
qed

lemma insert_many_growth:
  assumes "m_size v \<le> length (buffer h v)" and "allocated h (m_data v)"
    and "it_data pos = m_data v" and "it_index pos = p" and "p \<le> m_size v"
    and "args \<noteq> []" and "m_size v + length args \<le> SIZE_MAX"
    and "m_capacity v < m_size v + length args"
    and "2 * m_size v + length args \<le> avail h"
    and "list_all (outside h v) args"
  shows "\<exists>h1 v1 pos1.
           insert_many h v pos args = insert_many h1 v1 pos1 args
           \<and> m_capacity v1 \<le> length (buffer h1 v1)
           \<and> it_data pos1 = m_data v1 \<and> it_index pos1 = p
           \<and> m_size v1 = m_size v \<and> m_capacity v1 = m_size v + length args
           \<and> elements h1 v1 = elements h v
           \<and> list_all (outside h1 v1) args
           \<and> map (arg_value h1) args = map (arg_value h) args"
proof -
  let ?n = "length args"
  let ?s = "m_size v"
  let ?c = "?s + ?n"
  let ?es = "elements h v"
  let ?a2 = "Suc (length (blocks h))"
  let ?v1 = "v\<lparr>m_capacity := ?c, m_data := Some ?a2\<rparr>"
  let ?pos1 = "\<lparr>it_data = Some ?a2, it_size = ?s, it_index = p\<rparr>"
  have n: "0 < ?n" using assms(6) by simp
  have len: "length ?es = ?s"
    using assms(1) by (simp add: elements_def)
  have c0: "?c = (if ?c = 0 then 2 else ?c)" using n by simp
  have sc: "?s \<le> ?c" by simp
  have av: "?s + ?c \<le> avail h" using assms(9) by linarith
  from reserve_grow_props [OF assms(1) c0 assms(8) sc av assms(2)] obtain h1 where
    r: "reserve h v ?c = Return () (h1, ?v1)"
       "live h1 ?a2"
       "cells_at h1 ?a2 = ?es @ replicate (?c - ?s) (fresh h)"
       "length (blocks h1) = length (blocks h) + 2"
       "extends h (m_data v) h1"
    by blast
  let ?H = "release (acquire h1 (Some ?a2)) (it_data pos)"
  have ne: "m_data v \<noteq> Some ?a2"
    using assms(2) by (auto simp: allocated_def)
  have lH: "live ?H ?a2"
    using r(2) ne assms(3) by (simp add: live_release_other live_acquire)
  have cH: "cells_at ?H ?a2 = ?es @ replicate ?n (fresh h)"
    using r(3) by (simp add: store_simps)
  have eH: "extends h (m_data v) ?H"
    using r(5) assms(3) by (simp add: extends_release_same extends_acquire_new)
  have ad: "sz_add (size_vec v) ?n = ?c" "sz_add (size_vec ?v1) ?n = ?c"
    using assms(7) by (simp_all add: size_vec_def sz_add_small)
  have d: "distance (begin_it v) pos = p" "distance (begin_it ?v1) ?pos1 = p"
    using assms(4,5,7)
    by (simp_all add: distance_def begin_it_def iterator_ctor_def sz_sub_small)
  have ip: "iter_plus (begin_it ?v1) p = Inr ?pos1"
    using assms(5) by (simp add: iter_plus_def begin_it_def iterator_ctor_def)
  have g: "capacity v < ?c" "\<not> capacity ?v1 < ?c"
    using assms(8) by (simp_all add: capacity_def)
  have eq: "insert_many h v pos args = insert_many h1' v1 pos1 args"
    if "h1' = ?H" "v1 = ?v1" "pos1 = ?pos1" for h1' v1 pos1
    unfolding insert_many_def Let_def that ad d using g r(1) ip by simp
  have bH: "buffer ?H ?v1 = ?es @ replicate ?n (fresh h)"
    using lH cH by (simp add: buffer_def block_at_def)
  have w: "m_capacity ?v1 \<le> length (buffer ?H ?v1)"
    using len bH by simp
  have e: "elements ?H ?v1 = ?es"
    using len bH by (simp add: elements_def)
  have o: "list_all (outside ?H ?v1) args \<and> map (arg_value ?H) args = map (arg_value h) args"
    using assms(10) outside_extends [OF eH, of _ ?v1] by (auto simp: list_all_iff)
  show ?thesis
    using eq [OF refl refl refl] w e o
    by (intro exI [of _ ?H] exI [of _ ?v1] exI [of _ ?pos1]) simp
qed

text \<open>
  Claim C1, for the vectors and arguments on which it holds. Take a vector with elements
  \<open>es\<close> whose buffer has a slot for each element and for each unit of capacity (its
  pointer being one that the store has handed out), a position iterator of the vector at
  offset \<open>p\<close> up to the size, and at least one argument, none of which is a reference
  into the buffer of the vector, the new size fitting \<open>size_t\<close>. Then \<open>insert_many\<close>
  returns (the allocator providing the copy and the new buffer when the capacity has to
  grow), leaves the elements \<open>take p es @ args @ drop p es\<close>, where \<open>args\<close> are the
  values the arguments have at the call, adds the number of arguments to the size, and the
  iterator it returns dereferences to the first of them.
\<close>

theorem insert_many_inserts:
  assumes "m_size v \<le> length (buffer h v)" and "m_capacity v \<le> length (buffer h v)"
    and "allocated h (m_data v)"
    and "it_data pos = m_data v" and "it_index pos = p" and "p \<le> m_size v"
    and "args \<noteq> []" and "m_size v + length args \<le> SIZE_MAX"
    and "list_all (outside h v) args"
    and "m_capacity v < m_size v + length args \<longrightarrow> 2 * m_size v + length args \<le> avail h"
  shows "\<exists>pos' h' v' r. insert_many h v pos args = Return pos' (h', v')
           \<and> elements h' v' =
               take p (elements h v) @ map (arg_value h) args @ drop p (elements h v)
           \<and> size_vec v' = size_vec v + length args
           \<and> iter_deref h' pos' = Some r \<and> ref_get h' r = arg_value h (hd args)"
proof (cases "m_capacity v < m_size v + length args")
  case False
  then have "m_size v + length args \<le> m_capacity v" by simp
  from insert_many_no_growth [OF assms(2,4,5,6,7,8) this assms(9)] show ?thesis
    by (auto simp: size_vec_def)
next
  case True
  with assms(10) have av: "2 * m_size v + length args \<le> avail h" by simp
  from insert_many_growth [OF assms(1,3,4,5,6,7,8) True av assms(9)] obtain h1 v1 pos1 where
    g: "insert_many h v pos args = insert_many h1 v1 pos1 args"
       "m_capacity v1 \<le> length (buffer h1 v1)"
       "it_data pos1 = m_data v1" "it_index pos1 = p" "m_size v1 = m_size v"
       "m_capacity v1 = m_size v + length args" "elements h1 v1 = elements h v"
       "list_all (outside h1 v1) args"
       "map (arg_value h1) args = map (arg_value h) args"
    by blast
  have hv: "arg_value h1 (hd args) = arg_value h (hd args)"
    using g(9) assms(7) by (cases args) simp_all
  have "\<exists>h' r. insert_many h1 v1 pos1 args =
                  Return pos1 (h', v1\<lparr>m_size := m_size v1 + length args\<rparr>)
           \<and> elements h' (v1\<lparr>m_size := m_size v1 + length args\<rparr>) =
               take p (elements h1 v1) @ map (arg_value h1) args @ drop p (elements h1 v1)
           \<and> iter_deref h' pos1 = Some r \<and> ref_get h' r = arg_value h1 (hd args)"
    using g assms(6,7,8) by (intro insert_many_no_growth) simp_all
  then show ?thesis
    unfolding g(1) g(7) g(9) hv using g(5) by (auto simp: size_vec_def)
qed

theorem insert_many_inserts_witness:
  "m_size vec123 \<le> length (buffer heap1234 vec123)
   \<and> m_capacity vec123 \<le> length (buffer heap1234 vec123)
   \<and> allocated heap1234 (m_data vec123)
   \<and> it_data (it_at vec123 1) = m_data vec123
   \<and> it_index (it_at vec123 1) = 1 \<and> 1 \<le> m_size vec123
   \<and> [Value 4, Value 5, Value 6 :: int arg] \<noteq> []
   \<and> m_size vec123 + length [Value 4, Value 5, Value 6 :: int arg] \<le> SIZE_MAX
   \<and> list_all (outside heap1234 vec123) [Value 4, Value 5, Value 6]
   \<and> 2 * m_size vec123 + length [Value 4, Value 5, Value 6 :: int arg] \<le> avail heap1234
   \<and> (\<exists>pos' h' v' r.
          insert_many heap1234 vec123 (it_at vec123 1) [Value 4, Value 5, Value 6] =
            Return pos' (h', v')
          \<and> elements h' v' = [1, 4, 5, 6, 2, 3] \<and> size_vec v' = 6
          \<and> iter_deref h' pos' = Some r \<and> ref_get h' r = 4)"
proof -
  let ?args = "[Value 4, Value 5, Value 6 :: int arg]"
  have h1: "m_size vec123 \<le> length (buffer heap1234 vec123)"
    by (simp add: vec123_def heap1234_def buffer_def block_at_def live_def cells_at_def)
  have h2: "m_capacity vec123 \<le> length (buffer heap1234 vec123)"
    by (simp add: vec123_def heap1234_def buffer_def block_at_def live_def cells_at_def)
  have h3: "allocated heap1234 (m_data vec123)"
    by (simp add: allocated_def vec123_def heap1234_def)
  have h4: "it_data (it_at vec123 1) = m_data vec123"
    by (simp add: it_at_def)
  have h5: "it_index (it_at vec123 1) = 1"
    by (simp add: it_at_def)
  have h6: "1 \<le> m_size vec123"
    by (simp add: vec123_def)
  have h7: "?args \<noteq> []"
    by simp
  have h8: "m_size vec123 + length ?args \<le> SIZE_MAX"
    unfolding SIZE_MAX_less by (simp add: vec123_def)
  have h9: "list_all (outside heap1234 vec123) ?args"
    by (simp add: outside_def)
  have h10: "2 * m_size vec123 + length ?args \<le> avail heap1234"
    by (simp add: vec123_def heap1234_def)
  have h10': "m_capacity vec123 < m_size vec123 + length ?args \<longrightarrow>
             2 * m_size vec123 + length ?args \<le> avail heap1234"
    using h10 by simp
  have e: "take 1 (elements heap1234 vec123) @ map (arg_value heap1234) ?args @
             drop 1 (elements heap1234 vec123) = [1, 4, 5, 6, 2, 3]"
    by (simp add: vec123_def heap1234_def elements_def buffer_def block_at_def live_def
        cells_at_def arg_value_def)
  have s: "size_vec vec123 + length ?args = 6"
    by (simp add: size_vec_def vec123_def)
  have hd: "arg_value heap1234 (hd ?args) = 4"
    by (simp add: arg_value_def)
  have "\<exists>pos' h' v' r.
          insert_many heap1234 vec123 (it_at vec123 1) ?args = Return pos' (h', v')
          \<and> elements h' v' = [1, 4, 5, 6, 2, 3] \<and> size_vec v' = 6
          \<and> iter_deref h' pos' = Some r \<and> ref_get h' r = 4"
    using insert_many_inserts [OF h1 h2 h3 h4 h5 h6 h7 h8 h9 h10'] unfolding e s hd .
  with h1 h2 h3 h4 h5 h6 h7 h8 h9 h10 show ?thesis by blast
qed

lemmas insert_defs =
  insert_many_def distance_def begin_it_def iterator_ctor_def iter_plus_def iter_get_def
  iter_set_def iter_deref_def sz_sub_def elements_def buffer_def block_at_def at_def
  arg_value_def move_assign_def named_def Vector_default_def

text \<open>
  Claim C1 as stated, for every vector and all values, fails in two ways. Build
  \<open>v = {1, 2, 3}\<close> and \<open>reserve(10)\<close>. First, \<open>v.insert_many(v.begin(), v.at(2))\<close>:
  the argument is a reference to slot 2, which holds 3 at the call; the shift moves the 2
  of slot 1 there before the argument is read, so the vector ends as \<open>{2, 1, 2, 3}\<close>,
  not \<open>{3, 1, 2, 3}\<close>, and the iterator returned dereferences to 2. Second, move
  assignment \<open>a = std::move(v)\<close> to an empty vector gives \<open>a\<close> size 3 and capacity 10
  on a buffer of three slots; \<open>a.insert_many(a.begin(), 9)\<close> then sees room for the
  value, does not reserve, and its shift writes slot 3, outside the buffer.
\<close>

theorem insert_many_reads_shifted_element:
  "Vector_items heap0 [1, 2, 3] =
     Return () (\<lparr>blocks = [\<lparr>cells = [1, 2, 3], owners = 1\<rparr>], avail = 97, fresh = 0\<rparr>,
                \<lparr>m_data = Some 0, m_size = 3, m_capacity = 3\<rparr>)
   \<and> reserve \<lparr>blocks = [\<lparr>cells = [1, 2, 3], owners = 1\<rparr>], avail = 97, fresh = 0 :: int\<rparr>
        \<lparr>m_data = Some 0, m_size = 3, m_capacity = 3\<rparr> 10 =
     Return () (\<lparr>blocks = [\<lparr>cells = [1, 2, 3], owners = 0\<rparr>, \<lparr>cells = [1, 2, 3], owners = 0\<rparr>,
                            \<lparr>cells = [1, 2, 3, 0, 0, 0, 0, 0, 0, 0], owners = 1\<rparr>],
                  avail = 84, fresh = 0\<rparr>,
                \<lparr>m_data = Some 2, m_size = 3, m_capacity = 10\<rparr>)
   \<and> at \<lparr>blocks = [\<lparr>cells = [1, 2, 3], owners = 0\<rparr>, \<lparr>cells = [1, 2, 3], owners = 0\<rparr>,
                  \<lparr>cells = [1, 2, 3, 0, 0, 0, 0, 0, 0, 0], owners = 1\<rparr>],
         avail = 84, fresh = 0 :: int\<rparr>
      \<lparr>m_data = Some 2, m_size = 3, m_capacity = 10\<rparr> 2 =
     Return (2, 2)
       (\<lparr>blocks = [\<lparr>cells = [1, 2, 3], owners = 0\<rparr>, \<lparr>cells = [1, 2, 3], owners = 0\<rparr>,
                   \<lparr>cells = [1, 2, 3, 0, 0, 0, 0, 0, 0, 0], owners = 1\<rparr>],
          avail = 84, fresh = 0\<rparr>,
        \<lparr>m_data = Some 2, m_size = 3, m_capacity = 10\<rparr>)
   \<and> arg_value
        \<lparr>blocks = [\<lparr>cells = [1, 2, 3], owners = 0\<rparr>, \<lparr>cells = [1, 2, 3], owners = 0\<rparr>,
                   \<lparr>cells = [1, 2, 3, 0, 0, 0, 0, 0, 0, 0], owners = 1\<rparr>],
          avail = 84, fresh = 0 :: int\<rparr> (Slot (2, 2)) = 3
   \<and> insert_many
        \<lparr>blocks = [\<lparr>cells = [1, 2, 3], owners = 0\<rparr>, \<lparr>cells = [1, 2, 3], owners = 0\<rparr>,
                   \<lparr>cells = [1, 2, 3, 0, 0, 0, 0, 0, 0, 0], owners = 1\<rparr>],
          avail = 84, fresh = 0 :: int\<rparr>
        \<lparr>m_data = Some 2, m_size = 3, m_capacity = 10\<rparr>
        (begin_it \<lparr>m_data = Some 2, m_size = 3, m_capacity = 10\<rparr>) [Slot (2, 2)] =
     Return \<lparr>it_data = Some 2, it_size = 3, it_index = 0\<rparr>
       (\<lparr>blocks = [\<lparr>cells = [1, 2, 3], owners = 0\<rparr>, \<lparr>cells = [1, 2, 3], owners = 0\<rparr>,
                   \<lparr>cells = [2, 1, 2, 3, 0, 0, 0, 0, 0, 0], owners = 1\<rparr>],
          avail = 84, fresh = 0\<rparr>,
        \<lparr>m_data = Some 2, m_size = 4, m_capacity = 10\<rparr>)
   \<and> elements
        \<lparr>blocks = [\<lparr>cells = [1, 2, 3], owners = 0\<rparr>, \<lparr>cells = [1, 2, 3], owners = 0\<rparr>,
                   \<lparr>cells = [2, 1, 2, 3, 0, 0, 0, 0, 0, 0], owners = 1\<rparr>],
          avail = 84, fresh = 0 :: int\<rparr>
        \<lparr>m_data = Some 2, m_size = 4, m_capacity = 10\<rparr> = [2, 1, 2, 3]
   \<and> iter_deref
        \<lparr>blocks = [\<lparr>cells = [1, 2, 3], owners = 0\<rparr>, \<lparr>cells = [1, 2, 3], owners = 0\<rparr>,
                   \<lparr>cells = [2, 1, 2, 3, 0, 0, 0, 0, 0, 0], owners = 1\<rparr>],
          avail = 84, fresh = 0 :: int\<rparr>
        \<lparr>it_data = Some 2, it_size = 3, it_index = 0\<rparr> = Some (2, 0)
   \<and> ref_get
        \<lparr>blocks = [\<lparr>cells = [1, 2, 3], owners = 0\<rparr>, \<lparr>cells = [1, 2, 3], owners = 0\<rparr>,
                   \<lparr>cells = [2, 1, 2, 3, 0, 0, 0, 0, 0, 0], owners = 1\<rparr>],
          avail = 84, fresh = 0 :: int\<rparr> (2, 0) = 2
   \<and> move_assign
        \<lparr>blocks = [\<lparr>cells = [1, 2, 3], owners = 0\<rparr>, \<lparr>cells = [1, 2, 3], owners = 0\<rparr>,
                   \<lparr>cells = [1, 2, 3, 0, 0, 0, 0, 0, 0, 0], owners = 1\<rparr>],
          avail = 84, fresh = 0 :: int\<rparr>
        Vector_default (Other \<lparr>m_data = Some 2, m_size = 3, m_capacity = 10\<rparr>) =
     Return \<lparr>m_data = Some 2, m_size = 3, m_capacity = 10\<rparr>
       (\<lparr>blocks = [\<lparr>cells = [1, 2, 3], owners = 0\<rparr>, \<lparr>cells = [1, 2, 3], owners = 0\<rparr>,
                   \<lparr>cells = [1, 2, 3, 0, 0, 0, 0, 0, 0, 0], owners = 1\<rparr>,
                   \<lparr>cells = [1, 2, 3], owners = 1\<rparr>],
          avail = 81, fresh = 0\<rparr>,
        \<lparr>m_data = Some 3, m_size = 3, m_capacity = 10\<rparr>)
   \<and> insert_many
        \<lparr>blocks = [\<lparr>cells = [1, 2, 3], owners = 0\<rparr>, \<lparr>cells = [1, 2, 3], owners = 0\<rparr>,
                   \<lparr>cells = [1, 2, 3, 0, 0, 0, 0, 0, 0, 0], owners = 1\<rparr>,
                   \<lparr>cells = [1, 2, 3], owners = 1\<rparr>],
          avail = 81, fresh = 0 :: int\<rparr>
        \<lparr>m_data = Some 3, m_size = 3, m_capacity = 10\<rparr>
        (begin_it \<lparr>m_data = Some 3, m_size = 3, m_capacity = 10\<rparr>) [Value 9] =
     Abort MemoryFault"
  by (simp add: run_defs insert_defs)

section \<open>Move assignment\<close>

lemma elements_append_release:
  assumes "m_size v \<le> length (buffer h v)"
    and "blocks h1 = blocks h @ bs"
    and "d = None \<or> d \<noteq> m_data v"
  shows "elements (release h1 d) v = elements h v"
proof (cases "m_size v = 0")
  case True
  then show ?thesis by (simp add: elements_def)
next
  case False
  with assms(1) have p: "0 < length (block_at h (m_data v))"
    unfolding buffer_def by linarith
  from block_at_slot [OF p] obtain a where
    a: "m_data v = Some a" "live h a" "cells_at h a = block_at h (m_data v)" by blast
  have l1: "live h1 a" and c1: "cells_at h1 a = cells_at h a"
    using a(2) assms(2) by (simp_all add: live_def cells_at_def nth_append)
  have "d \<noteq> Some a"
    using assms(3) a(1) by auto
  then have "live (release h1 d) a"
    using l1 by (simp add: live_release_other)
  then show ?thesis
    using a c1 by (simp add: elements_def buffer_def block_at_def cells_at_release)
qed





text \<open>
  What a failed \<open>reserve\<close> does keep: the exception is the allocation error, and the
  size, the buffer and the elements are as before. The capacity is not in this list.
\<close>

lemma reserve_throw_keeps_elements:
  assumes "reserve h v n = Throw e (h', v')" and "m_size v \<le> length (buffer h v)"
  shows "e = AllocationError \<and> m_size v' = m_size v \<and> m_data v' = m_data v
         \<and> elements h' v' = elements h v"
proof (cases "m_size v \<le> avail h")
  case False
  then have "Vector_copy h v = Throw AllocationError
               (h, \<lparr>m_data = None, m_size = m_size v, m_capacity = m_size v\<rparr>)"
    by (simp add: Vector_copy_def allocate_vector_def new_array_def size_vec_def)
  with assms(1) show ?thesis
    by (auto simp: reserve_def Let_def split: if_splits)
next
  case True
  let ?h1 = "h\<lparr>blocks := blocks h @ [\<lparr>cells = elements h v, owners = 1\<rparr>],
               avail := avail h - m_size v\<rparr>"
  have cp: "Vector_copy h v = Return ()
      (?h1, \<lparr>m_data = Some (length (blocks h)), m_size = m_size v, m_capacity = m_size v\<rparr>)"
    using assms(2) True by (rule Vector_copy_ok)
  let ?h2 = "h\<lparr>blocks := blocks h @ [\<lparr>cells = elements h v, owners = Suc 0\<rparr>],
               avail := avail h - m_size v\<rparr>"
  have e1: "elements (release ?h2 (Some (length (blocks h)))) w = elements h v"
    if "m_size w = m_size v" "m_data w = m_data v" for w
  proof (cases "m_data v = Some (length (blocks h))")
    case True
    then have "buffer h v = []"
      by (simp add: buffer_def block_at_def live_def)
    with assms(2) have "m_size v = 0" by simp
    with that show ?thesis by (simp add: elements_def)
  next
    case False
    then have d: "Some (length (blocks h)) = None \<or> Some (length (blocks h)) \<noteq> m_data v"
      by auto
    have "elements (release ?h2 (Some (length (blocks h)))) v = elements h v"
      using assms(2) _ d by (rule elements_append_release) simp
    moreover have "elements (release ?h2 (Some (length (blocks h)))) w =
                   elements (release ?h2 (Some (length (blocks h)))) v"
      using that by (simp add: elements_def buffer_def)
    ultimately show ?thesis by simp
  qed
  from assms(1) cp show ?thesis
    by (auto simp: reserve_def Let_def allocate_vector_def e1
        split: if_splits option.splits prod.splits)
qed

end
